theory Spec2Isabelle
  imports Complex_Main
begin

section \<open>Strings and characters\<close>

text \<open>
  A Python \<open>str\<close> is modelled as a HOL \<open>string\<close>. The character predicates and case
  conversions below are those of Python on ASCII text (\<open>str.isalpha\<close>, \<open>str.isalnum\<close>,
  \<open>str.upper\<close>, \<open>str.lower\<close>, \<open>str.strip\<close>, and \<open>\w\<close>, \<open>\s\<close> of the module \<open>re\<close>); the model
  is the program on ASCII input. The three non-ASCII characters that occur in string
  literals of the source (the arrow, the bullet and the middle dot) are written as their
  UTF-8 bytes.
\<close>

definition ascii_lowercase :: string where
  "ascii_lowercase = ''abcdefghijklmnopqrstuvwxyz''"

definition ascii_uppercase :: string where
  "ascii_uppercase = ''ABCDEFGHIJKLMNOPQRSTUVWXYZ''"

definition digits :: string where
  "digits = ''0123456789''"

definition whitespace :: string where
  "whitespace = [CHR 0x09, CHR 0x0A, CHR 0x0B, CHR 0x0C, CHR 0x0D,
                 CHR 0x1C, CHR 0x1D, CHR 0x1E, CHR 0x1F, CHR 0x20]"

definition arrow :: string where
  "arrow = [CHR 0xE2, CHR 0x86, CHR 0x92]"

definition bullet :: string where
  "bullet = [CHR 0xE2, CHR 0x80, CHR 0xA2]"

definition middot :: string where
  "middot = [CHR 0xC2, CHR 0xB7]"

definition upper_char :: "char \<Rightarrow> char" where
  "upper_char c = (case map_of (zip ascii_lowercase ascii_uppercase) c of
                     Some u \<Rightarrow> u | None \<Rightarrow> c)"

definition lower_char :: "char \<Rightarrow> char" where
  "lower_char c = (case map_of (zip ascii_uppercase ascii_lowercase) c of
                     Some l \<Rightarrow> l | None \<Rightarrow> c)"

definition upper :: "string \<Rightarrow> string" where
  "upper s = map upper_char s"

definition lower :: "string \<Rightarrow> string" where
  "lower s = map lower_char s"

definition isalpha :: "char \<Rightarrow> bool" where
  "isalpha c = (c \<in> set ascii_lowercase \<or> c \<in> set ascii_uppercase)"

definition isalnum :: "char \<Rightarrow> bool" where
  "isalnum c = (isalpha c \<or> c \<in> set digits)"

definition isspace :: "char \<Rightarrow> bool" where
  "isspace c = (c \<in> set whitespace)"

text \<open>\<open>s.strip()\<close>: leading and trailing whitespace removed.\<close>

definition strip :: "string \<Rightarrow> string" where
  "strip s = rev (dropWhile isspace (rev (dropWhile isspace s)))"

text \<open>\<open>w.startswith(p)\<close>, \<open>w.endswith(s)\<close> and the substring test \<open>s in w\<close>.\<close>

definition startswith :: "string \<Rightarrow> string \<Rightarrow> bool" where
  "startswith w p = (take (length p) w = p)"

definition endswith :: "string \<Rightarrow> string \<Rightarrow> bool" where
  "endswith w s = (length s \<le> length w \<and> drop (length w - length s) w = s)"

fun contains :: "string \<Rightarrow> string \<Rightarrow> bool" where
  "contains [] s = (s = [])"
| "contains (c # w) s = (startswith (c # w) s \<or> contains w s)"

text \<open>The slices \<open>w[n:]\<close> and \<open>w[:-n]\<close>; the latter is empty when \<open>n = 0\<close>, as in Python.\<close>

definition slice_from :: "string \<Rightarrow> nat \<Rightarrow> string" where
  "slice_from w n = drop n w"

definition slice_to_neg :: "string \<Rightarrow> nat \<Rightarrow> string" where
  "slice_to_neg w n = (if n = 0 then [] else take (length w - n) w)"

text \<open>\<open>sep.join(xs)\<close>.\<close>

fun join :: "string \<Rightarrow> string list \<Rightarrow> string" where
  "join sep [] = []"
| "join sep [x] = x"
| "join sep (x # y # ys) = x @ sep @ join sep (y # ys)"

text \<open>\<open>str(n)\<close> of a non-negative integer, and \<open>int(d)\<close> of a one-character string.\<close>

fun str_nat :: "nat \<Rightarrow> string" where
  "str_nat n = (if n < 10 then [digits ! n]
                else str_nat (n div 10) @ [digits ! (n mod 10)])"

declare str_nat.simps [simp del]

definition int_of_digit :: "char \<Rightarrow> nat option" where
  "int_of_digit c = map_of (zip digits [0, 1, 2, 3, 4, 5, 6, 7, 8, 9]) c"

text \<open>\<open>sorted(xs, key=len, reverse=True)\<close>: stable, longest first.\<close>

definition sorted_len_desc :: "string list \<Rightarrow> string list" where
  "sorted_len_desc xs = sort_key (\<lambda>s. - int (length s)) xs"

section \<open>Errors and dictionaries\<close>

datatype error = KeyError | IndexError | ValueError | TypeError | ZeroDivisionError

definition then_do :: "error + 'a \<Rightarrow> ('a \<Rightarrow> error + 'b) \<Rightarrow> error + 'b" where
  "then_do m f = (case m of Inl e \<Rightarrow> Inl e | Inr x \<Rightarrow> f x)"

text \<open>
  A \<open>dict\<close> literal is an association list in insertion order. \<open>d[k]\<close> raises \<open>KeyError\<close>
  on a missing key; \<open>k in d\<close> and \<open>d.get(k, default)\<close> do not raise.
\<close>

definition getitem :: "('k \<times> 'v) list \<Rightarrow> 'k \<Rightarrow> error + 'v" where
  "getitem d k = (case map_of d k of None \<Rightarrow> Inl KeyError | Some v \<Rightarrow> Inr v)"

definition has_key :: "('k \<times> 'v) list \<Rightarrow> 'k \<Rightarrow> bool" where
  "has_key d k = (k \<in> set (map fst d))"

definition get_or :: "('k \<times> 'v) list \<Rightarrow> 'k \<Rightarrow> 'v \<Rightarrow> 'v" where
  "get_or d k dflt = (case map_of d k of None \<Rightarrow> dflt | Some v \<Rightarrow> v)"

definition keys :: "('k \<times> 'v) list \<Rightarrow> 'k list" where
  "keys d = map fst d"

section \<open>Enums and data classes\<close>

datatype ParsingLevel = CASUAL | STRUCTURAL | CEREMONIAL | EDUCATIONAL

datatype StrictnessLevel = PERMISSIVE | STANDARD | RIGOROUS

datatype ShadowType = SHADOW_STRUCTURAL | SHADOW_SEMANTIC | SHADOW_BOTH

fun level_name :: "ParsingLevel \<Rightarrow> string" where
  "level_name CASUAL = ''CASUAL''"
| "level_name STRUCTURAL = ''STRUCTURAL''"
| "level_name CEREMONIAL = ''CEREMONIAL''"
| "level_name EDUCATIONAL = ''EDUCATIONAL''"

fun strictness_name :: "StrictnessLevel \<Rightarrow> string" where
  "strictness_name PERMISSIVE = ''PERMISSIVE''"
| "strictness_name STANDARD = ''STANDARD''"
| "strictness_name RIGOROUS = ''RIGOROUS''"

type_synonym info = "(string \<times> string) list"

record ComponentDetail =
  ctype :: string
  ctext :: string
  cinfo :: info

record GlyphAnalysis =
  original :: string
  parsed :: string
  polarity :: string
  resonance :: string
  is_shadow :: bool
  shadow_types :: "ShadowType list"
  components :: "ComponentDetail list"
  warnings :: "string list"
  alternatives :: "string list"
  tier :: "nat option"
  field_context :: "string option"
  educational_note :: "string option"

text \<open>The attributes set by \<open>CodexGlyphParser.__init__\<close> from its arguments.\<close>

record Parser =
  level :: ParsingLevel
  strictness :: StrictnessLevel
  flag_semantic :: bool
  show_alternatives :: bool

definition default_parser :: Parser where
  "default_parser = \<lparr>level = STRUCTURAL, strictness = STANDARD,
                      flag_semantic = True, show_alternatives = True\<rparr>"

section \<open>Lexical tables\<close>

definition TAP_ROOT :: "(char \<times> nat \<times> string) list" where
  "TAP_ROOT =
   [(CHR ''A'', 1, ''Initiation'' @ middot @ ''Spark''),
    (CHR ''B'', 2, ''Duality'' @ middot @ ''Choice''),
    (CHR ''C'', 3, ''Creation'' @ middot @ ''Flow''),
    (CHR ''D'', 4, ''Structure'' @ middot @ ''Stability''),
    (CHR ''E'', 5, ''Freedom'' @ middot @ ''Change''),
    (CHR ''F'', 6, ''Harmony'' @ middot @ ''SacredGeometry''),
    (CHR ''G'', 7, ''Mystery'' @ middot @ ''Introspection''),
    (CHR ''H'', 8, ''Power'' @ middot @ ''Infinity''),
    (CHR ''I'', 9, ''Completion'' @ middot @ ''Wisdom''),
    (CHR ''J'', 10, ''RenewedInitiation''),
    (CHR ''K'', 11, ''MasterDuality'' @ middot @ ''Gateway''),
    (CHR ''L'', 12, ''IlluminatedCreation''),
    (CHR ''M'', 13, ''ManifestedStructure''),
    (CHR ''N'', 14, ''NetworkedFreedom''),
    (CHR ''O'', 15, ''WholeHarmony'' @ middot @ ''Orb''),
    (CHR ''P'', 16, ''PulsedMystery''),
    (CHR ''Q'', 17, ''QuantumPower''),
    (CHR ''R'', 18, ''RitualCompletion''),
    (CHR ''S'', 19, ''SpiraledInitiation''),
    (CHR ''T'', 20, ''TrialOfDuality''),
    (CHR ''U'', 21, ''UnifiedCreation''),
    (CHR ''V'', 22, ''MasterStructure''),
    (CHR ''W'', 23, ''WovenFreedom''),
    (CHR ''X'', 24, ''CrossedHarmony''),
    (CHR ''Y'', 25, ''ForkedMystery''),
    (CHR ''Z'', 26, ''ZeroedPower'' @ middot @ ''Zenith'')]"

definition MASTER_NUMBERS :: "(nat \<times> string) list" where
  "MASTER_NUMBERS =
   [(11, ''Gateway'' @ middot @ ''Luminator''),
    (22, ''MasterBuilder''),
    (33, ''MasterTeacher'' @ middot @ ''Healer''),
    (44, ''MasterFoundation''),
    (55, ''MasterChange'' @ middot @ ''Freedom''),
    (66, ''MasterNurturer'' @ middot @ ''Harmonizer''),
    (77, ''MasterMystic'' @ middot @ ''Seeker''),
    (88, ''MasterManifestor'' @ middot @ ''Abundance''),
    (99, ''MasterHumanitarian'' @ middot @ ''Completion'')]"

definition vcc_entry :: "string \<Rightarrow> string \<Rightarrow> string \<Rightarrow> info" where
  "vcc_entry m t e = [(''meaning'', m), (''type'', t), (''etymology'', e)]"

definition pre_entry :: "string \<Rightarrow> string \<Rightarrow> info" where
  "pre_entry m e = [(''meaning'', m), (''etymology'', e)]"

definition suf_entry :: "string \<Rightarrow> string \<Rightarrow> string \<Rightarrow> info" where
  "suf_entry m e n = [(''meaning'', m), (''etymology'', e), (''note'', n)]"

definition stance_entry :: "string \<Rightarrow> string \<Rightarrow> info" where
  "stance_entry m n = [(''meaning'', m), (''note'', n)]"

definition VCC_PREFIXES :: "(string \<times> info) list" where
  "VCC_PREFIXES =
   [(''IN'', vcc_entry ''into/within'' ''positional'' ''Latin in-''),
    (''EX'', vcc_entry ''out/from'' ''positional'' ''Latin ex-''),
    (''AT'', vcc_entry ''at/toward'' ''positional'' ''Latin ad-variant''),
    (''OB'', vcc_entry ''against/opposite'' ''positional'' ''Latin ob-''),
    (''OP'', vcc_entry ''against/toward'' ''positional'' ''Latin ob-variant''),
    (''AD'', vcc_entry ''toward/to'' ''positional'' ''Latin ad-''),
    (''AB'', vcc_entry ''away from'' ''positional'' ''Latin ab-''),
    (''IM'', vcc_entry ''into'' ''positional'' ''Latin in-assimilated''),
    (''IL'', vcc_entry ''into'' ''positional'' ''Latin in-assimilated''),
    (''IR'', vcc_entry ''into'' ''positional'' ''Latin in-assimilated''),
    (''IF'', vcc_entry ''into'' ''positional'' ''Latin in-assimilated''),
    (''UN'', vcc_entry ''liberation/reversal'' ''operational'' ''Old English un-'')]"

definition OTHER_PREFIXES :: "(string \<times> info) list" where
  "OTHER_PREFIXES =
   [(''RE'', pre_entry ''again/back/renewal'' ''Latin re-''),
    (''BE'', pre_entry ''causative/make'' ''Old English be-''),
    (''DE'', pre_entry ''removal/down'' ''Latin de-''),
    (''BI'', pre_entry ''by/at/near'' ''Old English bi''),
    (''UNDER'', pre_entry ''beneath (UN+D+ER)'' ''Old English''),
    (''OVER'', pre_entry ''above (O+V+ER)'' ''Old English''),
    (''CON'', pre_entry ''together/with'' ''Latin con-''),
    (''COM'', pre_entry ''together/with'' ''Latin con-variant''),
    (''SUB'', pre_entry ''under/below'' ''Latin sub-''),
    (''SUP'', pre_entry ''under'' ''Latin sub-assimilated''),
    (''PRE'', pre_entry ''before/prior'' ''Latin prae-''),
    (''PRO'', pre_entry ''forward/forth'' ''Latin pro-''),
    (''POST'', pre_entry ''after/behind'' ''Latin post-''),
    (''ANTI'', pre_entry ''against/opposite'' ''Greek anti-''),
    (''COUNTER'', pre_entry ''against/opposite'' ''Latin contra-''),
    (''SUPER'', pre_entry ''above/beyond'' ''Latin super-''),
    (''INTER'', pre_entry ''between/among'' ''Latin inter-''),
    (''TRANS'', pre_entry ''across/through'' ''Latin trans-''),
    (''CIRCUM'', pre_entry ''around'' ''Latin circum-''),
    (''PER'', pre_entry ''through/thoroughly'' ''Latin per-''),
    (''EXTRA'', pre_entry ''outside/beyond'' ''Latin extra-''),
    (''INTRA'', pre_entry ''within'' ''Latin intra-''),
    (''WITH'', pre_entry ''together/against'' ''Old English''),
    (''OUT'', pre_entry ''beyond/external'' ''Old English''),
    (''DOWN'', pre_entry ''downward'' ''Old English''),
    (''UP'', pre_entry ''upward'' ''Old English''),
    (''FOR'', pre_entry ''away/prohibition'' ''Old English''),
    (''FORE'', pre_entry ''before/front'' ''Old English''),
    (''AFTER'', pre_entry ''following'' ''Old English''),
    (''MID'', pre_entry ''middle'' ''Old English''),
    (''DIS'', pre_entry ''apart/away'' ''Latin dis-''),
    (''EN'', pre_entry ''cause to be in'' ''Latin en-''),
    (''EM'', pre_entry ''cause to be in'' ''Latin en-variant''),
    (''NON'', pre_entry ''not/without'' ''Latin non-''),
    (''MIS'', pre_entry ''wrong/bad'' ''Old English''),
    (''MAL'', pre_entry ''bad/evil'' ''Latin male-''),
    (''HYPER'', pre_entry ''over/excessive'' ''Greek hyper-''),
    (''HYPO'', pre_entry ''under/below'' ''Greek hypo-''),
    (''META'', pre_entry ''beyond/change'' ''Greek meta-''),
    (''PARA'', pre_entry ''beside/beyond'' ''Greek para-''),
    (''PROTO'', pre_entry ''first/original'' ''Greek protos-''),
    (''SYN'', pre_entry ''together'' ''Greek syn-''),
    (''SYM'', pre_entry ''together'' ''Greek syn-variant''),
    (''NEO'', pre_entry ''new'' ''Greek neos-''),
    (''PALEO'', pre_entry ''old/ancient'' ''Greek palaios-''),
    (''AUTO'', pre_entry ''self'' ''Greek autos-''),
    (''MONO'', pre_entry ''one/single'' ''Greek monos-''),
    (''UNI'', pre_entry ''one/single'' ''Latin unus-''),
    (''MULTI'', pre_entry ''many'' ''Latin multus-''),
    (''POLY'', pre_entry ''many'' ''Greek polys-''),
    (''SEMI'', pre_entry ''half'' ''Latin semi-''),
    (''OMNI'', pre_entry ''all'' ''Latin omnis-''),
    (''DIA'', pre_entry ''through/across'' ''Greek dia-''),
    (''EPI'', pre_entry ''upon/over'' ''Greek epi-''),
    (''AMPHI'', pre_entry ''both/around'' ''Greek amphi-''),
    (''PERI'', pre_entry ''around/near'' ''Greek peri-''),
    (''E'', pre_entry ''out'' ''Latin ex-variant''),
    (''A'', pre_entry ''to/toward or not'' ''Latin ad-/Greek a-'')]"

definition FULL_WORD_SUFFIXES :: "(string \<times> info) list" where
  "FULL_WORD_SUFFIXES =
   [(''MENT'', suf_entry ''the mind'' ''Latin mente'' ''mental operation''),
    (''HOOD'', suf_entry ''territory/covering'' ''Old English'' ''protected domain''),
    (''SHIP'', suf_entry ''vessel/journey'' ''Old English'' ''carrying relationship''),
    (''DOM'', suf_entry ''dominion/rule'' ''Old English'' ''territory of power''),
    (''NESS'', suf_entry ''projection/manifestation'' ''Old English/Norse''
                 ''state extended into form''),
    (''ABLE'', suf_entry ''ability/capable'' ''Latin habilis'' ''potential state''),
    (''IBLE'', suf_entry ''is-ability'' ''Latin'' ''current ability state (IS+ABLE)''),
    (''FUL'', suf_entry ''full of'' ''Old English full'' ''filled with quality''),
    (''LESS'', suf_entry ''without/lacking'' ''Old English leas'' ''absence of quality'')]"

definition STANCE_SUFFIXES :: "(string \<times> info) list" where
  "STANCE_SUFFIXES =
   [(''ISH'', stance_entry ''positioned toward'' ''tending toward quality''),
    (''IST'', stance_entry ''practitioner/believer'' ''one who takes position''),
    (''ISM'', stance_entry ''system/doctrine'' ''the position as doctrine''),
    (''Y'', stance_entry ''positioned in'' ''located within quality'')]"

definition TRUE_OPERATORS :: "string list" where
  "TRUE_OPERATORS =
   [''ER'', ''ING'', ''ED'', ''TION'', ''ION'', ''SION'', ''AL'', ''LY'',
    ''ES'', ''S'', ''EST'', ''AGE'', ''ANCE'', ''ENCE'', ''ANT'', ''ENT'',
    ''ARY'', ''ORY'', ''ATE'', ''EE'', ''ETTE'', ''URE'', ''TH'', ''TRY'',
    ''IC'', ''ICAL'', ''ILE'', ''INE'', ''OID'', ''OSE'', ''OUS'', ''WARD'',
    ''EN'', ''FY'', ''IFY'', ''IZE'', ''ISE'', ''ATIVE'', ''ITION'']"

definition COMMON_ROOTS :: "(string \<times> info) list" where
  "COMMON_ROOTS =
   [(''JECT'', pre_entry ''throw/cast'' ''Latin iacere''),
    (''TENT'', pre_entry ''stretch/aim'' ''Latin tendere''),
    (''TION'', pre_entry ''tension/stretching'' ''Latin tensio''),
    (''TENTION'', pre_entry ''stretching state'' ''Latin tensio''),
    (''PRESS'', pre_entry ''press/push'' ''Latin premere''),
    (''CESS'', pre_entry ''go/yield/proceed'' ''Latin cedere''),
    (''CEDE'', pre_entry ''go/yield'' ''Latin cedere''),
    (''CEIVE'', pre_entry ''take/receive'' ''Latin capere''),
    (''CEPT'', pre_entry ''take/seize'' ''Latin capere''),
    (''GRESS'', pre_entry ''step/walk'' ''Latin gradi''),
    (''SERV'', pre_entry ''serve/watch/keep'' ''Latin servare''),
    (''FORM'', pre_entry ''shape/structure'' ''Latin forma''),
    (''PORT'', pre_entry ''carry'' ''Latin portare''),
    (''VANCE'', pre_entry ''advance/move'' ''Latin''),
    (''PERI'', pre_entry ''try/test'' ''Latin periri''),
    (''FIRM'', pre_entry ''strong/fixed'' ''Latin firmus'')]"

definition GREEK_ROOTS :: "(string \<times> string) list" where
  "GREEK_ROOTS =
   [(''BIO'', ''life''), (''PSYCH'', ''mind/soul''), (''GE'', ''earth''),
    (''GEO'', ''earth''), (''THE'', ''god''), (''THEO'', ''god''),
    (''PHOTO'', ''light''), (''DEMO'', ''people''), (''MON'', ''one''),
    (''MONO'', ''one''), (''ARISTO'', ''best''), (''BUREAU'', ''desk''),
    (''TELE'', ''far''), (''PHON'', ''sound'')]"

definition GREEK_SUFFIXES :: "(string \<times> string) list" where
  "GREEK_SUFFIXES =
   [(''LOGY'', ''study''), (''GRAPHY'', ''writing''), (''ARCHY'', ''rule''),
    (''CRACY'', ''power/rule''), (''OLOGY'', ''study'')]"

definition SEMANTIC_SHADOWS :: "(string \<times> string) list" where
  "SEMANTIC_SHADOWS =
   [(''government'', ''govern-ment [govern the mind]''),
    (''information'', ''in-formation [forming within/control]''),
    (''representative'', ''re-present-ative [false re-presentation]'')]"

definition TECHNICAL_FIELDS :: "(string \<times> string list) list" where
  "TECHNICAL_FIELDS =
   [(''mathematics'', [''addition'', ''subtraction'', ''equation'', ''integer'']),
    (''medicine'', [''infection'', ''injection'', ''affliction'', ''prescription'',
                    ''observation'']),
    (''law'', [''objection'', ''injunction'', ''affidavit'', ''indictment'']),
    (''science'', [''observation'', ''experiment'', ''hypothesis'', ''analysis'']),
    (''technology'', [''application'', ''interface'', ''algorithm'', ''instruction''])]"

text \<open>
  \<open>self.all_prefixes = {**VCC_PREFIXES, **OTHER_PREFIXES}\<close> (the two tables share no key)
  and \<open>self.prefix_order\<close>, as \<open>__init__\<close> computes them.
\<close>

definition all_prefixes :: "(string \<times> info) list" where
  "all_prefixes = VCC_PREFIXES @ OTHER_PREFIXES"

definition prefix_order :: "string list" where
  "prefix_order = sorted_len_desc (keys all_prefixes)"

section \<open>Resonance calculation\<close>

text \<open>
  \<open>calculate_resonance\<close>: the letters of the uppercased word are summed through \<open>TAP_ROOT\<close>
  (\<open>TAP_ROOT.get(c, (0, ""))[0]\<close>), and the sum is reduced by digit sums while it is above 9
  and not a master number.
\<close>

definition letter_value :: "char \<Rightarrow> nat" where
  "letter_value c = fst (get_or TAP_ROOT c (0, []))"

fun sum_digits :: "string \<Rightarrow> error + nat" where
  "sum_digits [] = Inr 0"
| "sum_digits (d # ds) =
     (case int_of_digit d of
        None \<Rightarrow> Inl ValueError
      | Some v \<Rightarrow> (case sum_digits ds of Inl e \<Rightarrow> Inl e | Inr t \<Rightarrow> Inr (v + t)))"

lemma int_of_digit_digits: "d < 10 \<Longrightarrow> int_of_digit (digits ! d) = Some d"
proof -
  assume "d < 10"
  then have "d = 0 \<or> d = 1 \<or> d = 2 \<or> d = 3 \<or> d = 4 \<or> d = 5 \<or> d = 6 \<or> d = 7
               \<or> d = 8 \<or> d = 9"
    by presburger
  then show ?thesis
    by (elim disjE) (simp_all add: int_of_digit_def digits_def)
qed

lemma sum_digits_append:
  "sum_digits (xs @ ys) =
     (case sum_digits xs of Inl e \<Rightarrow> Inl e
      | Inr a \<Rightarrow> (case sum_digits ys of Inl e \<Rightarrow> Inl e | Inr b \<Rightarrow> Inr (a + b)))"
proof (induction xs)
  case Nil
  show ?case by (cases "sum_digits ys") simp_all
next
  case (Cons x xs)
  show ?case
  proof (cases "int_of_digit x")
    case None
    then show ?thesis by simp
  next
    case (Some v)
    show ?thesis
    proof (cases "sum_digits xs")
      case (Inl e)
      with Some Cons show ?thesis by simp
    next
      case (Inr a)
      with Some Cons show ?thesis by (cases "sum_digits ys") simp_all
    qed
  qed
qed

lemma digit_step_less: "\<not> n < 10 \<Longrightarrow> (m::nat) \<le> n div 10 \<Longrightarrow> m + n mod 10 < n"
proof -
  assume a: "\<not> n < 10" and b: "m \<le> n div 10"
  define q where "q = n div 10"
  define r where "r = n mod 10"
  have e: "10 * q + r = n" by (simp add: q_def r_def)
  have r: "r < 10" by (simp add: r_def)
  from a e r b [folded q_def] have "m + r < n" by linarith
  then show ?thesis by (simp add: r_def)
qed

lemma sum_digits_str_nat:
  "\<exists>m. sum_digits (str_nat n) = Inr m \<and> m \<le> n \<and> (9 < n \<longrightarrow> m < n)"
proof (induction n rule: str_nat.induct)
  case (1 n)
  show ?case
  proof (cases "n < 10")
    case True
    then show ?thesis
      by (subst str_nat.simps) (simp add: int_of_digit_digits)
  next
    case False
    with 1 obtain m where m: "sum_digits (str_nat (n div 10)) = Inr m" "m \<le> n div 10"
      by auto
    have md: "n mod 10 < 10" by simp
    have "sum_digits (str_nat n) = Inr (m + n mod 10)"
      using False m(1) int_of_digit_digits [OF md]
      by (subst str_nat.simps) (simp add: sum_digits_append)
    moreover have "m + n mod 10 < n" using False m(2) by (rule digit_step_less)
    ultimately show ?thesis by simp
  qed
qed

function reduce :: "nat \<Rightarrow> error + nat" where
  "reduce n =
     (if 9 < n \<and> \<not> has_key MASTER_NUMBERS n then
        (case sum_digits (str_nat n) of Inl e \<Rightarrow> Inl e | Inr m \<Rightarrow> reduce m)
      else Inr n)"
  by pat_completeness auto
termination
proof (relation "measure id")
  show "wf (measure id)" by simp
next
  fix n m :: nat
  assume a: "9 < n \<and> \<not> has_key MASTER_NUMBERS n" and b: "sum_digits (str_nat n) = Inr m"
  from sum_digits_str_nat [of n] a b have "m < n" by auto
  then show "(m, n) \<in> measure id" by simp
qed

declare reduce.simps [simp del]

definition calculate_resonance :: "string \<Rightarrow> error + string" where
  "calculate_resonance word =
     (let clean = filter isalpha (upper word);
          total = sum_list (map letter_value clean)
      in then_do (reduce total) (\<lambda>reduced.
           if total = reduced then
             (if has_key MASTER_NUMBERS total then
                then_do (getitem MASTER_NUMBERS total) (\<lambda>label.
                  Inr (str_nat total @ '' ('' @ label @ '')''))
              else Inr (str_nat total))
           else
             (if has_key MASTER_NUMBERS reduced then
                then_do (getitem MASTER_NUMBERS reduced) (\<lambda>label.
                  Inr (str_nat total @ arrow @ str_nat reduced @ '' ('' @ label @ '')''))
              else Inr (str_nat total @ arrow @ str_nat reduced))))"

section \<open>V+CC detection\<close>

text \<open>
  \<open>detect_vcc\<close>: the loop over the keys of \<open>VCC_PREFIXES\<close> in insertion order, returning at
  the first prefix followed by an alphabetic character other than A, E, I, O, U.
\<close>

fun detect_vcc_loop ::
  "string list \<Rightarrow> string \<Rightarrow> error + (bool \<times> string option \<times> string option)" where
  "detect_vcc_loop [] word_upper = Inr (False, None, None)"
| "detect_vcc_loop (p # ps) word_upper =
     (if startswith word_upper p \<and> length p < length word_upper then
        (let base_start = slice_from word_upper (length p) in
         if base_start \<noteq> [] \<and> isalpha (hd base_start) \<and> hd base_start \<notin> set ''AEIOU'' then
           then_do (getitem VCC_PREFIXES p) (\<lambda>entry.
           then_do (getitem entry ''type'') (\<lambda>prefix_type.
             if prefix_type = ''positional'' then Inr (True, Some p, Some ''tilde'')
             else Inr (True, Some p, Some ''hyphen'')))
         else detect_vcc_loop ps word_upper)
      else detect_vcc_loop ps word_upper)"

definition detect_vcc :: "string \<Rightarrow> error + (bool \<times> string option \<times> string option)" where
  "detect_vcc word = detect_vcc_loop (keys VCC_PREFIXES) (upper word)"

section \<open>Component extraction\<close>

record Components =
  c_prefix :: "string option"
  c_base :: string
  c_suffix :: "string option"

text \<open>The prefix loop of \<open>extract_components\<close>: the first entry of the order that matches.\<close>

fun find_prefix :: "string list \<Rightarrow> string \<Rightarrow> string option \<times> string" where
  "find_prefix [] word_upper = (None, word_upper)"
| "find_prefix (p # ps) word_upper =
     (if startswith word_upper p \<and> length p < length word_upper
      then (Some p, slice_from word_upper (length p))
      else find_prefix ps word_upper)"

text \<open>One suffix loop: the first entry that the base ends with and that leaves a rest.\<close>

fun find_suffix :: "string list \<Rightarrow> string \<Rightarrow> string option \<times> string" where
  "find_suffix [] b = (None, b)"
| "find_suffix (s # ss) b =
     (if endswith b s \<and> length s < length b
      then (Some s, slice_to_neg b (length s))
      else find_suffix ss b)"

text \<open>Truth value of an \<open>Optional[str]\<close>: \<open>None\<close> and the empty string are false.\<close>

fun truthy :: "string option \<Rightarrow> bool" where
  "truthy None = False"
| "truthy (Some s) = (s \<noteq> [])"

definition extract_components :: "string \<Rightarrow> Components" where
  "extract_components word =
     (let word_upper = upper word;
          (pre, base0) = find_prefix prefix_order word_upper;
          (suf1, base1) = find_suffix (sorted_len_desc (keys FULL_WORD_SUFFIXES)) base0;
          (suf2, base2) = (if \<not> truthy suf1
                           then find_suffix (sorted_len_desc (keys STANCE_SUFFIXES)) base1
                           else (suf1, base1));
          (suf3, base3) = (if \<not> truthy suf2
                           then find_suffix (sorted_len_desc TRUE_OPERATORS) base2
                           else (suf2, base2))
      in \<lparr>c_prefix = pre, c_base = base3, c_suffix = suf3\<rparr>)"

section \<open>Greek compounds\<close>

definition is_greek_compound :: "string \<Rightarrow> bool" where
  "is_greek_compound word =
     (let word_upper = upper word in
      list_ex (\<lambda>rt. startswith word_upper rt \<and>
                 list_ex (\<lambda>suffix. contains word_upper suffix) (keys GREEK_SUFFIXES))
              (keys GREEK_ROOTS))"

fun first_root :: "string list \<Rightarrow> string \<Rightarrow> string option" where
  "first_root [] word_upper = None"
| "first_root (rt # rts) word_upper =
     (if startswith word_upper rt then Some rt else first_root rts word_upper)"

fun first_root_suffix :: "string list \<Rightarrow> string \<Rightarrow> (string \<times> string) option" where
  "first_root_suffix [] word_upper = None"
| "first_root_suffix (rt # rts) word_upper =
     (if startswith word_upper rt \<and>
         has_key GREEK_SUFFIXES (slice_from word_upper (length rt))
      then Some (rt, slice_from word_upper (length rt))
      else first_root_suffix rts word_upper)"

definition parse_greek :: "string \<Rightarrow> string" where
  "parse_greek word =
     (let word_upper = upper word;
          cracy = (if contains word_upper ''CRACY''
                   then first_root (keys GREEK_ROOTS) word_upper else None)
      in case cracy of
           Some rt \<Rightarrow> rt @ ''~CRA-CY''
         | None \<Rightarrow>
             (case first_root_suffix (keys GREEK_ROOTS) word_upper of
                Some (rt, rest) \<Rightarrow> rt @ ''~'' @ rest
              | None \<Rightarrow> word_upper))"

text \<open>
  The Greek-compound test in the words of the specification, for comparison with
  \<open>is_greek_compound\<close>: the word starts with some Greek root and some Greek suffix occurs in
  the remainder after that root.
\<close>

definition spec_is_greek_compound :: "string \<Rightarrow> bool" where
  "spec_is_greek_compound word =
     (let word_upper = upper word in
      list_ex (\<lambda>rt. startswith word_upper rt \<and>
                 list_ex (\<lambda>suffix. contains (slice_from word_upper (length rt)) suffix)
                         (keys GREEK_SUFFIXES))
              (keys GREEK_ROOTS))"

section \<open>Word parsing\<close>

text \<open>The cleaning step of \<open>parse_word\<close>: alphanumerics and the characters \<open>-_~'\<close> are kept.\<close>

definition keep_chars :: string where
  "keep_chars = [CHR ''-'', CHR ''_'', CHR ''~'', CHR 0x27]"

definition clean_word :: "string \<Rightarrow> string" where
  "clean_word s = filter (\<lambda>c. isalnum c \<or> c \<in> set keep_chars) s"

text \<open>
  The semantic check. It yields the values of \<open>is_shadow\<close>, \<open>shadow_types\<close>, \<open>warnings\<close> and
  \<open>tier\<close> after the check.
\<close>

definition semantic_check ::
  "Parser \<Rightarrow> string \<Rightarrow> error + (bool \<times> ShadowType list \<times> string list \<times> nat option)" where
  "semantic_check self word_clean =
     (if flag_semantic self \<and> has_key SEMANTIC_SHADOWS (lower word_clean) then
        then_do (getitem SEMANTIC_SHADOWS (lower word_clean)) (\<lambda>expl.
          Inr (True, [SHADOW_SEMANTIC], [''Semantic control: '' @ expl], Some 1))
      else Inr (False, [], [], None))"

text \<open>\<open>tier or 2\<close>: \<open>None\<close> and \<open>0\<close> are false.\<close>

definition tier_or :: "nat option \<Rightarrow> nat \<Rightarrow> nat" where
  "tier_or t d = (case t of None \<Rightarrow> d | Some n \<Rightarrow> if n = 0 then d else n)"

text \<open>
  The V+CC check, from the result of \<open>detect_vcc\<close>. It yields \<open>is_shadow\<close>, \<open>shadow_types\<close>,
  \<open>warnings\<close>, \<open>alternatives\<close>, \<open>tier\<close> and \<open>polarity\<close>. \<open>len(vcc_prefix)\<close> raises \<open>TypeError\<close>
  on \<open>None\<close>.
\<close>

definition vcc_check ::
  "string \<Rightarrow> bool \<times> ShadowType list \<times> string list \<times> nat option \<Rightarrow>
   bool \<times> string option \<times> string option \<Rightarrow>
   error + (bool \<times> ShadowType list \<times> string list \<times> string list \<times> nat option \<times> string)" where
  "vcc_check word_upper sem det =
     (case sem of (sh, types, warns, tr) \<Rightarrow>
      case det of (vcc_detected, vcc_prefix, separator) \<Rightarrow>
        if vcc_detected then
          (case vcc_prefix of
             None \<Rightarrow> Inl TypeError
           | Some p \<Rightarrow>
               (let rest = slice_from word_upper (length p) in
                then_do (getitem VCC_PREFIXES p) (\<lambda>prefix_info.
                  if separator = Some ''tilde'' then
                    Inr (True, types @ [SHADOW_STRUCTURAL],
                         warns @ [''V+CC shadow: '' @ p @ '' positional - tilde neutralizes''],
                         [p @ ''~'' @ rest], Some (tier_or tr 2),
                         ''Sovereign with tilde (positional union)'')
                  else
                    Inr (True, types @ [SHADOW_STRUCTURAL],
                         warns @ [''V+CC shadow: '' @ p @ '' operational - hyphen required''],
                         [p @ ''-'' @ rest], Some (tier_or tr 2),
                         ''Shadow (operational, use hyphen or avoid)''))))
        else Inr (sh, types, warns, [], tr, ''Sovereign''))"

text \<open>The list \<open>parts\<close> of the present components, and an \<open>Optional[str]\<close> in an f-string.\<close>

fun opt_part :: "string option \<Rightarrow> string list" where
  "opt_part None = []"
| "opt_part (Some s) = (if s \<noteq> [] then [s] else [])"

definition parts_of :: "Components \<Rightarrow> string list" where
  "parts_of c = opt_part (c_prefix c) @ (if c_base c \<noteq> [] then [c_base c] else [])
                @ opt_part (c_suffix c)"

text \<open>An absent component read as the empty string.\<close>

fun opt_str :: "string option \<Rightarrow> string" where
  "opt_str None = []"
| "opt_str (Some s) = s"

fun fmt_opt :: "string option \<Rightarrow> string" where
  "fmt_opt None = ''None''"
| "fmt_opt (Some s) = s"

definition render_casual :: "string \<Rightarrow> bool \<Rightarrow> string list \<Rightarrow> string" where
  "render_casual word_clean sh alts =
     (case alts of [] \<Rightarrow> word_clean | a # _ \<Rightarrow> if sh then a else word_clean)"

definition render_structural :: "bool \<Rightarrow> string option \<Rightarrow> Components \<Rightarrow> string" where
  "render_structural vcc_detected separator c =
     (if vcc_detected \<and> separator = Some ''tilde'' then
        fmt_opt (c_prefix c) @ ''~'' @ c_base c
        @ (if truthy (c_suffix c) then ''-'' @ fmt_opt (c_suffix c) else [])
      else join ''-'' (parts_of c))"

definition render_ceremonial :: "Components \<Rightarrow> string" where
  "render_ceremonial c = join ''_'' (parts_of c)"

text \<open>\<open>f"{key}[{table[key]['meaning']}]"\<close>.\<close>

definition glossed :: "(string \<times> info) list \<Rightarrow> string \<Rightarrow> error + string" where
  "glossed table k =
     then_do (getitem table k) (\<lambda>entry.
     then_do (getitem entry ''meaning'') (\<lambda>m. Inr (k @ ''['' @ m @ '']'')))"

definition gloss_prefix :: "string option \<Rightarrow> error + string list" where
  "gloss_prefix po =
     (case po of
        None \<Rightarrow> Inr []
      | Some p \<Rightarrow>
          if p = [] then Inr []
          else if has_key VCC_PREFIXES p then then_do (glossed VCC_PREFIXES p) (\<lambda>g. Inr [g])
          else if has_key OTHER_PREFIXES p then then_do (glossed OTHER_PREFIXES p) (\<lambda>g. Inr [g])
          else Inr [p])"

definition gloss_base :: "string \<Rightarrow> error + string list" where
  "gloss_base b =
     (if b = [] then Inr []
      else if has_key COMMON_ROOTS b then then_do (glossed COMMON_ROOTS b) (\<lambda>g. Inr [g])
      else Inr [b])"

definition gloss_suffix :: "string option \<Rightarrow> error + string list" where
  "gloss_suffix so =
     (case so of
        None \<Rightarrow> Inr []
      | Some s \<Rightarrow>
          if s = [] then Inr []
          else if has_key FULL_WORD_SUFFIXES s
            then then_do (glossed FULL_WORD_SUFFIXES s) (\<lambda>g. Inr [g])
          else if has_key STANCE_SUFFIXES s
            then then_do (glossed STANCE_SUFFIXES s) (\<lambda>g. Inr [g])
          else Inr [s])"

text \<open>\<open>parts_with_meaning[0]\<close> raises \<open>IndexError\<close> on the empty list.\<close>

definition render_educational ::
  "bool \<Rightarrow> string option \<Rightarrow> Components \<Rightarrow> error + string" where
  "render_educational vcc_detected separator c =
     then_do (gloss_prefix (c_prefix c)) (\<lambda>gp.
     then_do (gloss_base (c_base c)) (\<lambda>gb.
     then_do (gloss_suffix (c_suffix c)) (\<lambda>gs.
       (let parts_with_meaning = gp @ gb @ gs in
        if vcc_detected \<and> separator = Some ''tilde'' then
          (case parts_with_meaning of
             [] \<Rightarrow> Inl IndexError
           | x # xs \<Rightarrow> Inr (x @ ''~'' @ join ''~'' xs))
        else Inr (join ''-'' parts_with_meaning)))))"

definition build_parsed ::
  "Parser \<Rightarrow> string \<Rightarrow> bool \<Rightarrow> string list \<Rightarrow> bool \<Rightarrow> string option \<Rightarrow> Components
   \<Rightarrow> error + string" where
  "build_parsed self word_clean sh alts vcc_detected separator c =
     (case level self of
        CASUAL \<Rightarrow> Inr (render_casual word_clean sh alts)
      | STRUCTURAL \<Rightarrow> Inr (render_structural vcc_detected separator c)
      | CEREMONIAL \<Rightarrow> Inr (render_ceremonial c)
      | EDUCATIONAL \<Rightarrow> render_educational vcc_detected separator c)"

text \<open>The loop over \<open>TECHNICAL_FIELDS.items()\<close>: the first field that lists the word.\<close>

fun find_field :: "(string \<times> string list) list \<Rightarrow> string \<Rightarrow> string option" where
  "find_field [] w = None"
| "find_field ((fld, terms) # rest) w =
     (if w \<in> set terms then Some fld else find_field rest w)"

text \<open>\<open>FULL_WORD_SUFFIXES.get(s) or STANCE_SUFFIXES.get(s) or {}\<close>: an empty dict is false.\<close>

definition suffix_info :: "string \<Rightarrow> info" where
  "suffix_info s =
     (let second = (case map_of STANCE_SUFFIXES s of
                      None \<Rightarrow> [] | Some i \<Rightarrow> if i \<noteq> [] then i else [])
      in case map_of FULL_WORD_SUFFIXES s of
           None \<Rightarrow> second
         | Some i \<Rightarrow> if i \<noteq> [] then i else second)"

definition component_details :: "Components \<Rightarrow> ComponentDetail list" where
  "component_details c =
     (case c_prefix c of
        None \<Rightarrow> []
      | Some p \<Rightarrow> if p \<noteq> []
          then [\<lparr>ctype = ''prefix'', ctext = p, cinfo = get_or all_prefixes p []\<rparr>] else [])
     @ (if c_base c \<noteq> []
        then [\<lparr>ctype = ''base'', ctext = c_base c, cinfo = get_or COMMON_ROOTS (c_base c) []\<rparr>]
        else [])
     @ (case c_suffix c of
          None \<Rightarrow> []
        | Some s \<Rightarrow> if s \<noteq> []
            then [\<lparr>ctype = ''suffix'', ctext = s, cinfo = suffix_info s\<rparr>] else [])"

definition greek_analysis :: "string \<Rightarrow> string \<Rightarrow> string \<Rightarrow> GlyphAnalysis" where
  "greek_analysis orig word_clean res =
     \<lparr>original = orig, parsed = parse_greek word_clean,
      polarity = ''Sovereign (Greek compound)'', resonance = res, is_shadow = False,
      shadow_types = [], components = [], warnings = [], alternatives = [],
      tier = None, field_context = None,
      educational_note = Some ''Greek compound with tilde flow''\<rparr>"

definition parse_word :: "Parser \<Rightarrow> string \<Rightarrow> error + GlyphAnalysis" where
  "parse_word self word =
     (let orig = strip word;
          word_clean = clean_word orig;
          word_upper = upper word_clean
      in if is_greek_compound word_clean then
           then_do (calculate_resonance word_clean) (\<lambda>res.
             Inr (greek_analysis orig word_clean res))
         else
           then_do (semantic_check self word_clean) (\<lambda>sem.
           then_do (detect_vcc word_clean) (\<lambda>det.
           then_do (vcc_check word_upper sem det) (\<lambda>(sh, types, warns, alts, tr, pol).
             (let c = extract_components word_clean in
              then_do (build_parsed self word_clean sh alts (fst det) (snd (snd det)) c)
                (\<lambda>rendered.
              then_do (calculate_resonance word_clean) (\<lambda>res.
                Inr \<lparr>original = orig, parsed = rendered, polarity = pol, resonance = res,
                     is_shadow = sh, shadow_types = types,
                     components = component_details c, warnings = warns,
                     alternatives = alts, tier = tr,
                     field_context = find_field TECHNICAL_FIELDS (lower word_clean),
                     educational_note = None\<rparr>)))))))"



section \<open>Tokenizing\<close>

text \<open>
  \<open>re.findall(r'\b[\w\-\_\~\']+\b', text)\<close>. \<open>\w\<close> is an alphanumeric or the underscore; \<open>\b\<close>
  holds between two positions of which exactly one holds a \<open>\w\<close> character (the ends of the
  text count as non-word). \<open>match_len c rest\<close> is the backtracking match of the greedy class
  repetition after its first character \<open>c\<close>: the longest continuation is tried first, and
  the match may end only at a word boundary. The search resumes where a match ended, or
  one character further when no match starts at a position.
\<close>

definition is_word_char :: "char \<Rightarrow> bool" where
  "is_word_char c = (isalnum c \<or> c = CHR ''_'')"

definition in_token_class :: "char \<Rightarrow> bool" where
  "in_token_class c = (is_word_char c \<or> c \<in> set [CHR ''-'', CHR ''_'', CHR ''~'', CHR 0x27])"

fun opt_word :: "char option \<Rightarrow> bool" where
  "opt_word None = False"
| "opt_word (Some c) = is_word_char c"

definition at_boundary :: "char option \<Rightarrow> char option \<Rightarrow> bool" where
  "at_boundary a b = (opt_word a \<noteq> opt_word b)"

fun match_len :: "char \<Rightarrow> string \<Rightarrow> nat option" where
  "match_len c [] = (if at_boundary (Some c) None then Some 0 else None)"
| "match_len c (d # ds) =
     (if in_token_class d then
        (case match_len d ds of
           Some k \<Rightarrow> Some (Suc k)
         | None \<Rightarrow> if at_boundary (Some c) (Some d) then Some 0 else None)
      else if at_boundary (Some c) (Some d) then Some 0 else None)"

function findall_words :: "char option \<Rightarrow> string \<Rightarrow> string list" where
  "findall_words prev [] = []"
| "findall_words prev (c # cs) =
     (if at_boundary prev (Some c) \<and> in_token_class c then
        (case match_len c cs of
           Some k \<Rightarrow> (c # take k cs) # findall_words (Some (last (c # take k cs))) (drop k cs)
         | None \<Rightarrow> findall_words (Some c) cs)
      else findall_words (Some c) cs)"
  by pat_completeness auto
termination
  by (relation "measure (\<lambda>(prev, s). length s)") auto

text \<open>
  \<open>re.findall(r'\b[\w\-\_\~\']+\b|[^\w\s]', text)\<close> of \<open>parse_document\<close>: where no word starts,
  a single character that is neither a word character nor whitespace is a token.
\<close>

function findall_tokens :: "char option \<Rightarrow> string \<Rightarrow> string list" where
  "findall_tokens prev [] = []"
| "findall_tokens prev (c # cs) =
     (case (if at_boundary prev (Some c) \<and> in_token_class c then match_len c cs else None) of
        Some k \<Rightarrow> (c # take k cs) # findall_tokens (Some (last (c # take k cs))) (drop k cs)
      | None \<Rightarrow>
          if \<not> is_word_char c \<and> \<not> isspace c then [c] # findall_tokens (Some c) cs
          else findall_tokens (Some c) cs)"
  by pat_completeness auto
termination
  by (relation "measure (\<lambda>(prev, s). length s)") auto

section \<open>Documents\<close>

text \<open>\<open>parse_document\<close>; \<open>re.match(r'[\w\-\_\~\']+', word)\<close> succeeds when the token starts
  with a character of the class.\<close>

fun parse_tokens :: "Parser \<Rightarrow> string list \<Rightarrow> error + string list" where
  "parse_tokens self [] = Inr []"
| "parse_tokens self (w # ws) =
     (if w \<noteq> [] \<and> in_token_class (hd w) then
        then_do (parse_word self w) (\<lambda>a.
        then_do (parse_tokens self ws) (\<lambda>rest. Inr (parsed a # rest)))
      else then_do (parse_tokens self ws) (\<lambda>rest. Inr (w # rest)))"

definition parse_document :: "Parser \<Rightarrow> string \<Rightarrow> error + string" where
  "parse_document self text =
     then_do (parse_tokens self (findall_tokens None text)) (\<lambda>parsed_words.
       Inr (join '' '' parsed_words))"

record DocumentStatistics =
  total_words :: nat
  shadow_count :: nat
  structural_shadows :: "string list"
  semantic_shadows :: "string list"
  sovereignty_score :: rat

text \<open>The loop of \<open>analyze_document\<close> over the words, on the count and the two lists.\<close>

fun analyze_loop ::
  "Parser \<Rightarrow> string list \<Rightarrow> nat \<times> string list \<times> string list \<Rightarrow>
   error + (nat \<times> string list \<times> string list)" where
  "analyze_loop self [] acc = Inr acc"
| "analyze_loop self (w # ws) (cnt, structs, sems) =
     then_do (parse_word self w) (\<lambda>a.
       if is_shadow a then
         analyze_loop self ws
           (cnt + 1,
            (if SHADOW_STRUCTURAL \<in> set (shadow_types a) then structs @ [w] else structs),
            (if SHADOW_SEMANTIC \<in> set (shadow_types a) then sems @ [w] else sems))
       else analyze_loop self ws (cnt, structs, sems))"

text \<open>\<open>a / b\<close> raises \<open>ZeroDivisionError\<close> when \<open>b\<close> is zero. The score is held as an exact
  rational.\<close>

definition true_div :: "rat \<Rightarrow> rat \<Rightarrow> error + rat" where
  "true_div a b = (if b = 0 then Inl ZeroDivisionError else Inr (a / b))"

definition analyze_words :: "Parser \<Rightarrow> string list \<Rightarrow> error + DocumentStatistics" where
  "analyze_words self ws =
     then_do (analyze_loop self ws (0, [], [])) (\<lambda>(cnt, structs, sems).
     then_do (if 0 < length ws
              then then_do (true_div (of_int (int (length ws) - int cnt)) (of_nat (length ws)))
                     (\<lambda>q. Inr (q * 100))
              else Inr 0) (\<lambda>score.
       Inr \<lparr>total_words = length ws, shadow_count = cnt, structural_shadows = structs,
            semantic_shadows = sems, sovereignty_score = score\<rparr>))"

definition analyze_document :: "Parser \<Rightarrow> string \<Rightarrow> error + DocumentStatistics" where
  "analyze_document self text = analyze_words self (findall_words None text)"

section \<open>Report\<close>

text \<open>
  \<open>generate_report\<close>. Two things of the Python run time are parameters: \<open>set_order\<close>, the
  order in which a \<open>set\<close> built from a list is iterated (some list of the distinct elements),
  and \<open>format_1f\<close>, the float formatting \<open>:.1f\<close> of the score.
\<close>

definition rule72 :: string where
  "rule72 = replicate 72 (CHR ''='')"

fun report_words :: "Parser \<Rightarrow> string list \<Rightarrow> error + string list" where
  "report_words self [] = Inr []"
| "report_words self (w # ws) =
     then_do (parse_word self w) (\<lambda>word_analysis.
     then_do (report_words self ws) (\<lambda>rest.
       Inr ((''  '' @ bullet @ '' '' @ w @ '' '' @ arrow @ '' '' @ parsed word_analysis) # rest)))"

definition structural_section ::
  "(string list \<Rightarrow> string list) \<Rightarrow> Parser \<Rightarrow> string list \<Rightarrow> error + string list" where
  "structural_section set_order self structs =
     (if structs \<noteq> [] then
        then_do (report_words self (set_order (take 10 structs))) (\<lambda>lines.
          Inr ([''STRUCTURAL SHADOWS (V+CC): '' @ str_nat (length structs)] @ lines
               @ (if 10 < length structs
                  then [''  ... and '' @ str_nat (length structs - 10) @ '' more''] else [])
               @ [[]]))
      else Inr [])"

definition semantic_section ::
  "(string list \<Rightarrow> string list) \<Rightarrow> Parser \<Rightarrow> string list \<Rightarrow> error + string list" where
  "semantic_section set_order self sems =
     (if sems \<noteq> [] then
        then_do (report_words self (set_order sems)) (\<lambda>lines.
          Inr ([''SEMANTIC SHADOWS (Control Language): '' @ str_nat (length sems)] @ lines
               @ [[]]))
      else Inr [])"

definition report_head :: "(rat \<Rightarrow> string) \<Rightarrow> Parser \<Rightarrow> DocumentStatistics \<Rightarrow> string list" where
  "report_head format_1f self analysis =
     [rule72,
      ''CODEXGLYPH DOCUMENT ANALYSIS REPORT'',
      ''Parsing Level: '' @ level_name (level self),
      ''Strictness: '' @ strictness_name (strictness self),
      rule72,
      [],
      ''Total Words: '' @ str_nat (total_words analysis),
      ''Shadow Glyphs: '' @ str_nat (shadow_count analysis),
      ''Sovereignty Score: '' @ format_1f (sovereignty_score analysis) @ ''%'',
      []]"

definition report_lines ::
  "(string list \<Rightarrow> string list) \<Rightarrow> (rat \<Rightarrow> string) \<Rightarrow> Parser \<Rightarrow> string
   \<Rightarrow> error + string list" where
  "report_lines set_order format_1f self text =
     then_do (analyze_document self text) (\<lambda>analysis.
     then_do (structural_section set_order self (structural_shadows analysis)) (\<lambda>sec1.
     then_do (semantic_section set_order self (semantic_shadows analysis)) (\<lambda>sec2.
       Inr (report_head format_1f self analysis @ sec1 @ sec2 @ [rule72]))))"

definition generate_report ::
  "(string list \<Rightarrow> string list) \<Rightarrow> (rat \<Rightarrow> string) \<Rightarrow> Parser \<Rightarrow> string
   \<Rightarrow> error + string" where
  "generate_report set_order format_1f self text =
     then_do (report_lines set_order format_1f self text) (\<lambda>report.
       Inr (join [CHR 0x0A] report))"

text \<open>What is known of the iteration order of a set: the distinct elements, each once.\<close>

definition valid_set_order :: "(string list \<Rightarrow> string list) \<Rightarrow> bool" where
  "valid_set_order set_order = (\<forall>xs. set (set_order xs) = set xs \<and> distinct (set_order xs))"

section \<open>Basic facts\<close>

lemma then_do_Inr [simp]: "then_do (Inr x) f = f x"
  by (simp add: then_do_def)

lemma then_do_Inl [simp]: "then_do (Inl e) f = Inl e"
  by (simp add: then_do_def)

lemma getitem_has_key: "has_key d k \<Longrightarrow> \<exists>v. getitem d k = Inr v \<and> (k, v) \<in> set d"
proof -
  assume "has_key d k"
  then have "k \<in> fst ` set d" by (simp add: has_key_def)
  then have "map_of d k \<noteq> None" by (simp add: map_of_eq_None_iff)
  then obtain v where "map_of d k = Some v" by auto
  then show ?thesis by (auto simp add: getitem_def dest: map_of_SomeD)
qed

lemma upper_eq_Nil [simp]: "(upper w = []) = (w = [])"
  by (simp add: upper_def)

lemma startswith_split: "startswith w p \<Longrightarrow> p @ slice_from w (length p) = w"
proof -
  assume "startswith w p"
  then have "take (length p) w = p" by (simp add: startswith_def)
  then have "p @ drop (length p) w = take (length p) w @ drop (length p) w" by simp
  then show ?thesis by (simp add: slice_from_def)
qed

lemma endswith_split:
  "endswith b s \<Longrightarrow> s \<noteq> [] \<Longrightarrow> slice_to_neg b (length s) @ s = b"
proof -
  assume e: "endswith b s" and n: "s \<noteq> []"
  from e have "drop (length b - length s) b = s" by (simp add: endswith_def)
  then have "take (length b - length s) b @ s
             = take (length b - length s) b @ drop (length b - length s) b" by simp
  with n show ?thesis by (simp add: slice_to_neg_def)
qed

lemma find_prefix_split:
  "find_prefix ps w = (po, b) \<Longrightarrow> opt_str po @ b = w \<and> (w \<noteq> [] \<longrightarrow> b \<noteq> [])"
proof (induction ps)
  case Nil
  then show ?case by auto
next
  case (Cons p ps)
  show ?case
  proof (cases "startswith w p \<and> length p < length w")
    case True
    with Cons.prems have "po = Some p" "b = slice_from w (length p)" by auto
    with True show ?thesis by (simp add: startswith_split) (simp add: slice_from_def)
  next
    case False
    with Cons show ?thesis by auto
  qed
qed

lemma find_prefix_mem:
  "find_prefix ps w = (Some p, b) \<Longrightarrow> p \<in> set ps \<and> startswith w p \<and> length p < length w"
  by (induction ps) (auto split: if_splits)

lemma find_prefix_fires:
  "q \<in> set ps \<Longrightarrow> startswith w q \<Longrightarrow> length q < length w \<Longrightarrow>
   \<exists>p b. find_prefix ps w = (Some p, b)"
  by (induction ps) auto

lemma find_suffix_split:
  "find_suffix ss b = (so, b') \<Longrightarrow> [] \<notin> set ss \<Longrightarrow>
   b' @ opt_str so = b \<and> (b \<noteq> [] \<longrightarrow> b' \<noteq> []) \<and> (so = None \<longrightarrow> b' = b) \<and> so \<noteq> Some []"
proof (induction ss)
  case Nil
  then show ?case by auto
next
  case (Cons s ss)
  show ?case
  proof (cases "endswith b s \<and> length s < length b")
    case True
    with Cons.prems have eq: "so = Some s" "b' = slice_to_neg b (length s)" and ne: "s \<noteq> []"
      by auto
    from True ne have "slice_to_neg b (length s) @ s = b" by (simp add: endswith_split)
    moreover from True ne have "slice_to_neg b (length s) \<noteq> []"
      by (auto simp add: slice_to_neg_def)
    ultimately show ?thesis using eq ne by simp
  next
    case False
    with Cons show ?thesis by auto
  qed
qed

lemma find_suffix_mem: "find_suffix ss b = (Some s, b') \<Longrightarrow> s \<in> set ss"
  by (induction ss) (auto split: if_splits)

lemma set_sorted_len_desc [simp]: "set (sorted_len_desc xs) = set xs"
  by (simp add: sorted_len_desc_def)

lemma suffix_tables_nonempty:
  "[] \<notin> set (keys FULL_WORD_SUFFIXES)" "[] \<notin> set (keys STANCE_SUFFIXES)"
  "[] \<notin> set TRUE_OPERATORS"
  by (simp_all add: keys_def FULL_WORD_SUFFIXES_def STANCE_SUFFIXES_def TRUE_OPERATORS_def)

lemma extract_components_split:
  "opt_str (c_prefix (extract_components word)) @ c_base (extract_components word)
     @ opt_str (c_suffix (extract_components word)) = upper word
   \<and> (word \<noteq> [] \<longrightarrow> c_base (extract_components word) \<noteq> [])
   \<and> c_suffix (extract_components word) \<noteq> Some []"
proof -
  obtain pre base0 where p: "find_prefix prefix_order (upper word) = (pre, base0)"
    by (cases "find_prefix prefix_order (upper word)")
  obtain suf1 base1 where s1:
    "find_suffix (sorted_len_desc (keys FULL_WORD_SUFFIXES)) base0 = (suf1, base1)"
    by (cases "find_suffix (sorted_len_desc (keys FULL_WORD_SUFFIXES)) base0")
  obtain suf2 base2 where s2:
    "find_suffix (sorted_len_desc (keys STANCE_SUFFIXES)) base1 = (suf2, base2)"
    by (cases "find_suffix (sorted_len_desc (keys STANCE_SUFFIXES)) base1")
  obtain suf3 base3 where s3:
    "find_suffix (sorted_len_desc TRUE_OPERATORS) base2 = (suf3, base3)"
    by (cases "find_suffix (sorted_len_desc TRUE_OPERATORS) base2")
  note P = find_prefix_split [OF p]
  note S1 = find_suffix_split [OF s1, simplified, OF suffix_tables_nonempty(1)]
  note S2 = find_suffix_split [OF s2, simplified, OF suffix_tables_nonempty(2)]
  note S3 = find_suffix_split [OF s3, simplified, OF suffix_tables_nonempty(3)]
  show ?thesis
  proof (cases suf1)
    case (Some a)
    with S1 have "truthy suf1" by (cases a) auto
    then have "extract_components word = \<lparr>c_prefix = pre, c_base = base1, c_suffix = suf1\<rparr>"
      by (simp add: extract_components_def p s1)
    with P S1 show ?thesis by auto
  next
    case None
    with S1 have b1: "base1 = base0" by simp
    show ?thesis
    proof (cases suf2)
      case (Some a)
      with S2 have "truthy suf2" by (cases a) auto
      with None have
        "extract_components word = \<lparr>c_prefix = pre, c_base = base2, c_suffix = suf2\<rparr>"
        by (simp add: extract_components_def p s1 s2)
      with P S2 b1 show ?thesis by auto
    next
      case None2: None
      with S2 have b2: "base2 = base1" by simp
      from None None2 have
        "extract_components word = \<lparr>c_prefix = pre, c_base = base3, c_suffix = suf3\<rparr>"
        by (simp add: extract_components_def p s1 s2 s3)
      with P S3 b1 b2 show ?thesis by auto
    qed
  qed
qed

section \<open>No operation raises\<close>

lemma reduce_stops: "\<not> (9 < n \<and> \<not> has_key MASTER_NUMBERS n) \<Longrightarrow> reduce n = Inr n"
  by (subst reduce.simps) auto

lemma reduce_total: "\<exists>m. reduce n = Inr m"
proof (induction n rule: less_induct)
  case (less n)
  show ?case
  proof (cases "9 < n \<and> \<not> has_key MASTER_NUMBERS n")
    case True
    from sum_digits_str_nat [of n] True obtain m
      where m: "sum_digits (str_nat n) = Inr m" "m < n" by auto
    from less [OF m(2)] obtain r where r: "reduce m = Inr r" ..
    have "reduce n = Inr r" using True m(1) r by (subst reduce.simps) simp
    then show ?thesis ..
  next
    case False
    then have "reduce n = Inr n" by (rule reduce_stops)
    then show ?thesis ..
  qed
qed

lemma master_label: "has_key MASTER_NUMBERS k \<Longrightarrow> \<exists>v. getitem MASTER_NUMBERS k = Inr v"
  using getitem_has_key [of MASTER_NUMBERS k] by auto

lemma calculate_resonance_total: "\<exists>r. calculate_resonance w = Inr r"
proof -
  define total where "total = sum_list (map letter_value (filter isalpha (upper w)))"
  obtain m where m: "reduce total = Inr m" using reduce_total by blast
  have eq: "calculate_resonance w =
     (if total = m then
        (if has_key MASTER_NUMBERS total then
           then_do (getitem MASTER_NUMBERS total) (\<lambda>label.
             Inr (str_nat total @ '' ('' @ label @ '')''))
         else Inr (str_nat total))
      else
        (if has_key MASTER_NUMBERS m then
           then_do (getitem MASTER_NUMBERS m) (\<lambda>label.
             Inr (str_nat total @ arrow @ str_nat m @ '' ('' @ label @ '')''))
         else Inr (str_nat total @ arrow @ str_nat m)))"
    using m by (simp add: calculate_resonance_def Let_def total_def [symmetric])
  show ?thesis
  proof (cases "has_key MASTER_NUMBERS total")
    case True
    from master_label [OF True] obtain v where "getitem MASTER_NUMBERS total = Inr v" ..
    with True show ?thesis unfolding eq
      by (cases "has_key MASTER_NUMBERS m") (auto dest!: master_label)
  next
    case False
    then show ?thesis unfolding eq
      by (cases "has_key MASTER_NUMBERS m") (auto dest!: master_label)
  qed
qed

lemma vcc_entries:
  "\<forall>p \<in> set (keys VCC_PREFIXES). \<exists>e t. getitem VCC_PREFIXES p = Inr e \<and> getitem e ''type'' = Inr t"
  by (simp add: keys_def VCC_PREFIXES_def getitem_def vcc_entry_def)

lemma detect_vcc_loop_cases:
  assumes "\<forall>p \<in> set ps. \<exists>e t. getitem VCC_PREFIXES p = Inr e \<and> getitem e ''type'' = Inr t"
  shows "detect_vcc_loop ps w = Inr (False, None, None)
         \<or> (\<exists>p sep. detect_vcc_loop ps w = Inr (True, Some p, Some sep) \<and> p \<in> set ps
              \<and> (sep = ''tilde'' \<or> sep = ''hyphen'')
              \<and> startswith w p \<and> length p < length w)"
  using assms
proof (induction ps)
  case Nil
  then show ?case by simp
next
  case (Cons p ps)
  from Cons.prems obtain e t
    where e: "getitem VCC_PREFIXES p = Inr e" "getitem e ''type'' = Inr t" by auto
  from Cons have IH: "detect_vcc_loop ps w = Inr (False, None, None)
         \<or> (\<exists>p sep. detect_vcc_loop ps w = Inr (True, Some p, Some sep) \<and> p \<in> set ps
              \<and> (sep = ''tilde'' \<or> sep = ''hyphen'')
              \<and> startswith w p \<and> length p < length w)" by simp
  show ?case
  proof (cases "startswith w p \<and> length p < length w \<and> slice_from w (length p) \<noteq> []
                \<and> isalpha (hd (slice_from w (length p)))
                \<and> hd (slice_from w (length p)) \<notin> set ''AEIOU''")
    case True
    then have "detect_vcc_loop (p # ps) w =
               (if t = ''positional'' then Inr (True, Some p, Some ''tilde'')
                else Inr (True, Some p, Some ''hyphen''))"
      using e by (simp add: Let_def)
    with True show ?thesis by auto
  next
    case False
    then have "detect_vcc_loop (p # ps) w = detect_vcc_loop ps w"
      by (auto simp add: Let_def)
    with IH show ?thesis by auto
  qed
qed

lemma detect_vcc_cases:
  "detect_vcc word = Inr (False, None, None)
   \<or> (\<exists>p sep. detect_vcc word = Inr (True, Some p, Some sep) \<and> p \<in> set (keys VCC_PREFIXES)
        \<and> (sep = ''tilde'' \<or> sep = ''hyphen'')
        \<and> startswith (upper word) p \<and> length p < length (upper word))"
  unfolding detect_vcc_def by (rule detect_vcc_loop_cases [OF vcc_entries])

lemma glossed_total:
  assumes "has_key table k" and "\<forall>(k, e) \<in> set table. has_key e ''meaning''"
  shows "\<exists>g. glossed table k = Inr g"
proof -
  from getitem_has_key [OF assms(1)] obtain e
    where e: "getitem table k = Inr e" "(k, e) \<in> set table" by blast
  with assms(2) have "has_key e ''meaning''" by auto
  from getitem_has_key [OF this] obtain m where "getitem e ''meaning'' = Inr m" by blast
  with e show ?thesis by (simp add: glossed_def)
qed

lemma table_meanings:
  "\<forall>(k, e) \<in> set VCC_PREFIXES. has_key e ''meaning''"
  "\<forall>(k, e) \<in> set OTHER_PREFIXES. has_key e ''meaning''"
  "\<forall>(k, e) \<in> set COMMON_ROOTS. has_key e ''meaning''"
  "\<forall>(k, e) \<in> set FULL_WORD_SUFFIXES. has_key e ''meaning''"
  "\<forall>(k, e) \<in> set STANCE_SUFFIXES. has_key e ''meaning''"
  by (simp_all add: VCC_PREFIXES_def OTHER_PREFIXES_def COMMON_ROOTS_def
        FULL_WORD_SUFFIXES_def STANCE_SUFFIXES_def has_key_def vcc_entry_def pre_entry_def
        suf_entry_def stance_entry_def)

lemma gloss_prefix_total:
  "\<exists>gs. gloss_prefix po = Inr gs \<and> (truthy po \<longrightarrow> gs \<noteq> [])"
proof (cases po)
  case None
  then show ?thesis by (simp add: gloss_prefix_def)
next
  case (Some p)
  show ?thesis
  proof (cases "has_key VCC_PREFIXES p")
    case True
    from glossed_total [OF True table_meanings(1)] obtain g
      where "glossed VCC_PREFIXES p = Inr g" ..
    with Some True show ?thesis by (simp add: gloss_prefix_def)
  next
    case False
    show ?thesis
    proof (cases "has_key OTHER_PREFIXES p")
      case True
      from glossed_total [OF True table_meanings(2)] obtain g
        where "glossed OTHER_PREFIXES p = Inr g" ..
      with Some True False show ?thesis by (simp add: gloss_prefix_def)
    next
      case F2: False
      with Some False show ?thesis by (simp add: gloss_prefix_def)
    qed
  qed
qed

lemma gloss_base_total: "\<exists>gs. gloss_base b = Inr gs"
proof (cases "has_key COMMON_ROOTS b")
  case True
  from glossed_total [OF True table_meanings(3)] obtain g
    where "glossed COMMON_ROOTS b = Inr g" ..
  with True show ?thesis by (simp add: gloss_base_def)
next
  case False
  then show ?thesis by (simp add: gloss_base_def)
qed

lemma gloss_suffix_total: "\<exists>gs. gloss_suffix so = Inr gs"
proof (cases so)
  case None
  then show ?thesis by (simp add: gloss_suffix_def)
next
  case (Some s)
  show ?thesis
  proof (cases "has_key FULL_WORD_SUFFIXES s")
    case True
    from glossed_total [OF True table_meanings(4)] obtain g
      where "glossed FULL_WORD_SUFFIXES s = Inr g" ..
    with Some True show ?thesis by (simp add: gloss_suffix_def)
  next
    case False
    show ?thesis
    proof (cases "has_key STANCE_SUFFIXES s")
      case True
      from glossed_total [OF True table_meanings(5)] obtain g
        where "glossed STANCE_SUFFIXES s = Inr g" ..
      with Some True False show ?thesis by (simp add: gloss_suffix_def)
    next
      case F2: False
      with Some False show ?thesis by (simp add: gloss_suffix_def)
    qed
  qed
qed

lemma render_educational_total:
  assumes "vcc_detected \<and> separator = Some ''tilde'' \<longrightarrow> truthy (c_prefix c)"
  shows "\<exists>s. render_educational vcc_detected separator c = Inr s"
proof -
  from gloss_prefix_total obtain gp
    where gp: "gloss_prefix (c_prefix c) = Inr gp" "truthy (c_prefix c) \<longrightarrow> gp \<noteq> []" by blast
  from gloss_base_total obtain gb where gb: "gloss_base (c_base c) = Inr gb" by blast
  from gloss_suffix_total obtain gs where gs: "gloss_suffix (c_suffix c) = Inr gs" by blast
  show ?thesis
  proof (cases "vcc_detected \<and> separator = Some ''tilde''")
    case True
    with assms gp(2) obtain x xs where "gp = x # xs" by (cases gp) auto
    with True gp(1) gb gs show ?thesis by (simp add: render_educational_def)
  next
    case False
    with gp(1) gb gs show ?thesis by (auto simp add: render_educational_def)
  qed
qed

lemma build_parsed_total:
  assumes "vcc_detected \<and> separator = Some ''tilde'' \<longrightarrow> truthy (c_prefix c)"
  shows "\<exists>s. build_parsed self word_clean sh alts vcc_detected separator c = Inr s"
  using render_educational_total [OF assms]
  by (cases "level self") (simp_all add: build_parsed_def)

lemma c_prefix_extract:
  "c_prefix (extract_components word) = fst (find_prefix prefix_order (upper word))"
  by (simp add: extract_components_def Let_def split: prod.splits)

lemma prefix_order_set: "set prefix_order = set (keys VCC_PREFIXES) \<union> set (keys OTHER_PREFIXES)"
  by (simp add: prefix_order_def all_prefixes_def keys_def)

lemma prefix_order_nonempty: "[] \<notin> set prefix_order"
  unfolding prefix_order_set
  by (simp add: keys_def VCC_PREFIXES_def OTHER_PREFIXES_def)

lemma detected_has_prefix:
  assumes "detect_vcc word = Inr (True, pq, sep)"
  shows "truthy (c_prefix (extract_components word))"
proof -
  from detect_vcc_cases [of word] assms obtain q
    where q: "q \<in> set (keys VCC_PREFIXES)" "startswith (upper word) q"
             "length q < length (upper word)" by auto
  from q(1) have "q \<in> set prefix_order" by (simp add: prefix_order_set)
  from find_prefix_fires [OF this q(2) q(3)] obtain p b
    where f: "find_prefix prefix_order (upper word) = (Some p, b)" by blast
  from find_prefix_mem [OF f] prefix_order_nonempty have "p \<noteq> []" by auto
  with f show ?thesis by (simp add: c_prefix_extract)
qed

lemma semantic_check_cases:
  "(flag_semantic self \<and> has_key SEMANTIC_SHADOWS (lower word_clean)
      \<and> (\<exists>expl. semantic_check self word_clean
            = Inr (True, [SHADOW_SEMANTIC], [''Semantic control: '' @ expl], Some 1)))
   \<or> (\<not> (flag_semantic self \<and> has_key SEMANTIC_SHADOWS (lower word_clean))
      \<and> semantic_check self word_clean = Inr (False, [], [], None))"
proof (cases "flag_semantic self \<and> has_key SEMANTIC_SHADOWS (lower word_clean)")
  case True
  then have "has_key SEMANTIC_SHADOWS (lower word_clean)" by simp
  from getitem_has_key [OF this] obtain v
    where "getitem SEMANTIC_SHADOWS (lower word_clean) = Inr v" by blast
  with True show ?thesis by (simp add: semantic_check_def)
next
  case False
  then show ?thesis by (auto simp add: semantic_check_def)
qed

lemma vcc_check_fired:
  assumes "p \<in> set (keys VCC_PREFIXES)"
  shows "vcc_check word_upper (sh, types, warns, tr) (True, Some p, Some sep) =
         (if sep = ''tilde'' then
            Inr (True, types @ [SHADOW_STRUCTURAL],
                 warns @ [''V+CC shadow: '' @ p @ '' positional - tilde neutralizes''],
                 [p @ ''~'' @ slice_from word_upper (length p)], Some (tier_or tr 2),
                 ''Sovereign with tilde (positional union)'')
          else
            Inr (True, types @ [SHADOW_STRUCTURAL],
                 warns @ [''V+CC shadow: '' @ p @ '' operational - hyphen required''],
                 [p @ ''-'' @ slice_from word_upper (length p)], Some (tier_or tr 2),
                 ''Shadow (operational, use hyphen or avoid)''))"
proof -
  from assms vcc_entries obtain e where "getitem VCC_PREFIXES p = Inr e" by blast
  then show ?thesis by (simp add: vcc_check_def Let_def)
qed

lemma vcc_check_quiet:
  "vcc_check word_upper (sh, types, warns, tr) (False, None, None)
   = Inr (sh, types, warns, [], tr, ''Sovereign'')"
  by (simp add: vcc_check_def)

lemma parse_word_total: "\<exists>a. parse_word self word = Inr a"
proof -
  define wc where "wc = clean_word (strip word)"
  obtain res where res: "calculate_resonance wc = Inr res"
    using calculate_resonance_total by blast
  show ?thesis
  proof (cases "is_greek_compound wc")
    case True
    with res show ?thesis by (simp add: parse_word_def Let_def wc_def [symmetric])
  next
    case False
    obtain sh types warns tr where sem: "semantic_check self wc = Inr (sh, types, warns, tr)"
      using semantic_check_cases [of self wc] by auto
    from detect_vcc_cases [of wc] show ?thesis
    proof
      assume d: "detect_vcc wc = Inr (False, None, None)"
      have "\<exists>s. build_parsed self wc sh [] False None (extract_components wc) = Inr s"
        by (rule build_parsed_total) simp
      then obtain s
        where "build_parsed self wc sh [] False None (extract_components wc) = Inr s" ..
      with False res sem d show ?thesis
        by (simp add: parse_word_def Let_def wc_def [symmetric] vcc_check_quiet)
    next
      assume "\<exists>p sep. detect_vcc wc = Inr (True, Some p, Some sep)
                \<and> p \<in> set (keys VCC_PREFIXES) \<and> (sep = ''tilde'' \<or> sep = ''hyphen'')
                \<and> startswith (upper wc) p \<and> length p < length (upper wc)"
      then obtain p sep where d: "detect_vcc wc = Inr (True, Some p, Some sep)"
        and p: "p \<in> set (keys VCC_PREFIXES)" by blast
      have t: "truthy (c_prefix (extract_components wc))" by (rule detected_has_prefix [OF d])
      have b: "\<And>alts sh'. \<exists>s. build_parsed self wc sh' alts True (Some sep)
                               (extract_components wc) = Inr s"
        by (rule build_parsed_total) (simp add: t)
      show ?thesis
      proof (cases "sep = ''tilde''")
        case True
        from b obtain s where "build_parsed self wc True
           [p @ ''~'' @ slice_from (upper wc) (length p)] True (Some sep)
           (extract_components wc) = Inr s" by blast
        with False res sem d True show ?thesis
          by (simp add: parse_word_def Let_def wc_def [symmetric] vcc_check_fired [OF p])
      next
        case F: False
        from b obtain s where "build_parsed self wc True
           [p @ ''-'' @ slice_from (upper wc) (length p)] True (Some sep)
           (extract_components wc) = Inr s" by blast
        with False res sem d F show ?thesis
          by (simp add: parse_word_def Let_def wc_def [symmetric] vcc_check_fired [OF p])
      qed
    qed
  qed
qed

lemma parse_tokens_total: "\<exists>r. parse_tokens self ws = Inr r"
proof (induction ws)
  case Nil
  show ?case by simp
next
  case (Cons w ws)
  then obtain r where r: "parse_tokens self ws = Inr r" ..
  obtain a where a: "parse_word self w = Inr a" using parse_word_total by blast
  from r a show ?case by simp
qed

lemma parse_document_total: "\<exists>r. parse_document self text = Inr r"
proof -
  obtain r where "parse_tokens self (findall_tokens None text) = Inr r"
    using parse_tokens_total by blast
  then show ?thesis by (simp add: parse_document_def)
qed

lemma analyze_loop_total:
  "\<exists>cnt' structs' sems'. analyze_loop self ws (cnt, structs, sems) = Inr (cnt', structs', sems')
     \<and> cnt \<le> cnt' \<and> cnt' \<le> cnt + length ws"
proof (induction ws arbitrary: cnt structs sems)
  case Nil
  show ?case by simp
next
  case (Cons w ws)
  obtain a where a: "parse_word self w = Inr a" using parse_word_total by blast
  show ?case
  proof (cases "is_shadow a")
    case True
    define structs1 where
      "structs1 = (if SHADOW_STRUCTURAL \<in> set (shadow_types a) then structs @ [w] else structs)"
    define sems1 where
      "sems1 = (if SHADOW_SEMANTIC \<in> set (shadow_types a) then sems @ [w] else sems)"
    from Cons [of "cnt + 1" structs1 sems1] obtain cnt' structs' sems'
      where r: "analyze_loop self ws (cnt + 1, structs1, sems1) = Inr (cnt', structs', sems')"
        "cnt + 1 \<le> cnt'" "cnt' \<le> cnt + 1 + length ws" by blast
    have "analyze_loop self (w # ws) (cnt, structs, sems) = Inr (cnt', structs', sems')"
      using a True r(1) by (simp add: structs1_def sems1_def)
    with r(2,3) show ?thesis by simp
  next
    case False
    from Cons [of cnt structs sems] obtain cnt' structs' sems'
      where r: "analyze_loop self ws (cnt, structs, sems) = Inr (cnt', structs', sems')"
        "cnt \<le> cnt'" "cnt' \<le> cnt + length ws" by blast
    have "analyze_loop self (w # ws) (cnt, structs, sems) = Inr (cnt', structs', sems')"
      using a False r(1) by simp
    with r(2,3) show ?thesis by simp
  qed
qed

lemma analyze_words_result:
  "\<exists>cnt structs sems.
     analyze_loop self ws (0, [], []) = Inr (cnt, structs, sems) \<and> cnt \<le> length ws \<and>
     analyze_words self ws =
       Inr \<lparr>total_words = length ws, shadow_count = cnt, structural_shadows = structs,
            semantic_shadows = sems,
            sovereignty_score =
              (if 0 < length ws
               then (of_nat (length ws) - of_nat cnt) / of_nat (length ws) * 100 else 0)\<rparr>"
proof -
  from analyze_loop_total [of self ws 0 "[]" "[]"] obtain cnt structs sems
    where r: "analyze_loop self ws (0, [], []) = Inr (cnt, structs, sems)" "cnt \<le> length ws"
    by auto
  have "analyze_words self ws =
       Inr \<lparr>total_words = length ws, shadow_count = cnt, structural_shadows = structs,
            semantic_shadows = sems,
            sovereignty_score =
              (if 0 < length ws
               then (of_nat (length ws) - of_nat cnt) / of_nat (length ws) * 100 else 0)\<rparr>"
    using r(1) by (simp add: analyze_words_def true_div_def)
  with r show ?thesis by blast
qed

lemma analyze_document_total: "\<exists>st. analyze_document self text = Inr st"
  using analyze_words_result [of self "findall_words None text"]
  by (auto simp add: analyze_document_def)

lemma report_words_total:
  "\<exists>lines. report_words self ws = Inr lines \<and>
     list_all2 (\<lambda>w l. \<exists>a. parse_word self w = Inr a \<and>
                  l = ''  '' @ bullet @ '' '' @ w @ '' '' @ arrow @ '' '' @ parsed a) ws lines"
proof (induction ws)
  case Nil
  show ?case by simp
next
  case (Cons w ws)
  then obtain lines where r: "report_words self ws = Inr lines"
     "list_all2 (\<lambda>w l. \<exists>a. parse_word self w = Inr a \<and>
                  l = ''  '' @ bullet @ '' '' @ w @ '' '' @ arrow @ '' '' @ parsed a) ws lines"
    by blast
  obtain a where a: "parse_word self w = Inr a" using parse_word_total by blast
  from r a show ?case by simp
qed

lemma structural_section_total: "\<exists>ls. structural_section set_order self structs = Inr ls"
  using report_words_total [of self "set_order (take 10 structs)"]
  by (auto simp add: structural_section_def)

lemma semantic_section_total: "\<exists>ls. semantic_section set_order self sems = Inr ls"
  using report_words_total [of self "set_order sems"]
  by (auto simp add: semantic_section_def)

lemma report_lines_total: "\<exists>ls. report_lines set_order format_1f self text = Inr ls"
proof -
  obtain st where st: "analyze_document self text = Inr st"
    using analyze_document_total by blast
  obtain s1 where s1: "structural_section set_order self (structural_shadows st) = Inr s1"
    using structural_section_total by blast
  obtain s2 where s2: "semantic_section set_order self (semantic_shadows st) = Inr s2"
    using semantic_section_total by blast
  from st s1 s2 show ?thesis by (simp add: report_lines_def)
qed

lemma generate_report_total: "\<exists>r. generate_report set_order format_1f self text = Inr r"
  using report_lines_total [of set_order format_1f self "text"]
  by (auto simp add: generate_report_def)

lemma detect_vcc_total: "\<exists>r. detect_vcc word = Inr r"
  using detect_vcc_cases [of word] by auto

section \<open>The analysis of a word that is not a Greek compound\<close>

lemma parse_word_nongreek:
  assumes "\<not> is_greek_compound (clean_word (strip word))"
  shows "\<exists>sh types warns tr det sh' types' warns' alts tr' pol rendered res.
      semantic_check self (clean_word (strip word)) = Inr (sh, types, warns, tr)
    \<and> detect_vcc (clean_word (strip word)) = Inr det
    \<and> vcc_check (upper (clean_word (strip word))) (sh, types, warns, tr) det
        = Inr (sh', types', warns', alts, tr', pol)
    \<and> build_parsed self (clean_word (strip word)) sh' alts (fst det) (snd (snd det))
         (extract_components (clean_word (strip word))) = Inr rendered
    \<and> (fst det \<and> snd (snd det) = Some ''tilde''
         \<longrightarrow> truthy (c_prefix (extract_components (clean_word (strip word)))))
    \<and> parse_word self word =
        Inr \<lparr>original = strip word, parsed = rendered, polarity = pol, resonance = res,
             is_shadow = sh', shadow_types = types',
             components = component_details (extract_components (clean_word (strip word))),
             warnings = warns', alternatives = alts, tier = tr',
             field_context = find_field TECHNICAL_FIELDS (lower (clean_word (strip word))),
             educational_note = None\<rparr>"
proof -
  define wc where "wc = clean_word (strip word)"
  obtain res where res: "calculate_resonance wc = Inr res"
    using calculate_resonance_total by blast
  obtain sh types warns tr where sem: "semantic_check self wc = Inr (sh, types, warns, tr)"
    using semantic_check_cases [of self wc] by auto
  obtain det where det: "detect_vcc wc = Inr det" using detect_vcc_total by blast
  have t: "fst det \<and> snd (snd det) = Some ''tilde'' \<longrightarrow> truthy (c_prefix (extract_components wc))"
  proof
    assume "fst det \<and> snd (snd det) = Some ''tilde''"
    with det have "detect_vcc wc = Inr (True, fst (snd det), Some ''tilde'')"
      by (cases det) auto
    then show "truthy (c_prefix (extract_components wc))" by (rule detected_has_prefix)
  qed
  obtain sh' types' warns' alts tr' pol
    where vc: "vcc_check (upper wc) (sh, types, warns, tr) det
               = Inr (sh', types', warns', alts, tr', pol)"
  proof -
    from detect_vcc_cases [of wc] det
    have "det = (False, None, None)
          \<or> (\<exists>p sep. det = (True, Some p, Some sep) \<and> p \<in> set (keys VCC_PREFIXES))" by auto
    then have "\<exists>r. vcc_check (upper wc) (sh, types, warns, tr) det = Inr r"
      by (auto simp add: vcc_check_quiet vcc_check_fired)
    then show ?thesis using that by (metis prod_cases6)
  qed
  have "\<exists>s. build_parsed self wc sh' alts (fst det) (snd (snd det)) (extract_components wc)
              = Inr s"
    by (rule build_parsed_total) (rule t)
  then obtain rendered
    where bp: "build_parsed self wc sh' alts (fst det) (snd (snd det)) (extract_components wc)
               = Inr rendered" ..
  have "parse_word self word =
        Inr \<lparr>original = strip word, parsed = rendered, polarity = pol, resonance = res,
             is_shadow = sh', shadow_types = types',
             components = component_details (extract_components wc),
             warnings = warns', alternatives = alts, tier = tr',
             field_context = find_field TECHNICAL_FIELDS (lower wc),
             educational_note = None\<rparr>"
    using assms res sem det vc bp
    by (simp add: parse_word_def Let_def wc_def [symmetric])
  with sem det vc bp t show ?thesis unfolding wc_def by blast
qed

lemma parse_word_greek:
  assumes "is_greek_compound (clean_word (strip word))"
  shows "\<exists>res. parse_word self word
                = Inr (greek_analysis (strip word) (clean_word (strip word)) res)"
proof -
  obtain res where "calculate_resonance (clean_word (strip word)) = Inr res"
    using calculate_resonance_total by blast
  with assms have "parse_word self word
                   = Inr (greek_analysis (strip word) (clean_word (strip word)) res)"
    by (simp add: parse_word_def Let_def)
  then show ?thesis ..
qed

section \<open>The word "experiment"\<close>

text \<open>
  C1 (as stated, refuted). The claim gives the split of "experiment" as prefix EX, base
  PERIM, suffix ENT from the operator table, and the parsed string "EX~PERIM-ENT". The
  extractor finds neither this suffix nor this base, and \<open>parse_word\<close> (Structural mode,
  Standard strictness, semantic flagging on) does not return this string.
\<close>

theorem C1_counterexample:
  "c_suffix (extract_components ''experiment'') \<noteq> Some ''ENT''
   \<and> c_base (extract_components ''experiment'') \<noteq> ''PERIM''
   \<and> map_sum id parsed (parse_word default_parser ''experiment'') \<noteq> Inr ''EX~PERIM-ENT''"
  by code_simp

text \<open>
  C1 (amended). For the input word "experiment" (Structural mode, Standard strictness,
  semantic flagging on) the detector reports a positional shadow via prefix EX; the
  extractor strips EX, leaving the residual PERIMENT, and the full-word suffix table, which
  is tried before the operator table, matches MENT, leaving base PERI; the parsed output
  string is "EX~PERI-MENT".
\<close>

theorem C1_experiment:
  "detect_vcc ''experiment'' = Inr (True, Some ''EX'', Some ''tilde'')
   \<and> find_prefix prefix_order (upper ''experiment'') = (Some ''EX'', ''PERIMENT'')
   \<and> find_suffix (sorted_len_desc (keys FULL_WORD_SUFFIXES)) ''PERIMENT''
       = (Some ''MENT'', ''PERI'')
   \<and> extract_components ''experiment''
       = \<lparr>c_prefix = Some ''EX'', c_base = ''PERI'', c_suffix = Some ''MENT''\<rparr>
   \<and> map_sum id parsed (parse_word default_parser ''experiment'') = Inr ''EX~PERI-MENT''"
  by code_simp

section \<open>Totality\<close>

lemma resonance_empty: "calculate_resonance [] = Inr ''0''"
  by (simp add: calculate_resonance_def upper_def reduce_stops has_key_def MASTER_NUMBERS_def
        str_nat.simps digits_def)

text \<open>
  C2. For every string input (the empty string, strings without alphabetic characters and
  strings matching no table entry included), \<open>parse_word\<close> and \<open>calculate_resonance\<close> return a
  result, and so do the detector and the document operations: in no operation is an error
  branch (a failed key or index lookup, a conversion of a non-digit, a division by zero)
  ever taken. The extractor and the Greek matcher have no such branch at all. The
  resonance of the empty string is "0".
\<close>

theorem C2_no_exceptions:
  "(\<exists>a. parse_word self word = Inr a)
   \<and> (\<exists>r. calculate_resonance word = Inr r)
   \<and> (\<exists>d. detect_vcc word = Inr d)
   \<and> (\<exists>s. parse_document self word = Inr s)
   \<and> (\<exists>st. analyze_document self word = Inr st)
   \<and> (\<exists>rep. generate_report set_order format_1f self word = Inr rep)
   \<and> calculate_resonance [] = Inr ''0''"
  using parse_word_total calculate_resonance_total detect_vcc_total parse_document_total
    analyze_document_total generate_report_total resonance_empty
  by blast

section \<open>Strictness\<close>

lemma semantic_check_strictness:
  "semantic_check (self\<lparr>strictness := s\<rparr>) = semantic_check self"
  by (rule ext) (simp add: semantic_check_def)

lemma build_parsed_strictness:
  "build_parsed (self\<lparr>strictness := s\<rparr>) = build_parsed self"
  by (intro ext) (simp add: build_parsed_def)

lemma parse_word_strictness: "parse_word (self\<lparr>strictness := s\<rparr>) word = parse_word self word"
  unfolding parse_word_def semantic_check_strictness build_parsed_strictness by (rule refl)

text \<open>
  C9. For every input word and every fixed choice of the other options, runs of
  \<open>parse_word\<close> that differ only in the strictness setting return identical analysis records.
\<close>

theorem C9_strictness_ignored:
  "parse_word (self\<lparr>strictness := s1\<rparr>) word = parse_word (self\<lparr>strictness := s2\<rparr>) word"
  by (simp add: parse_word_strictness)

section \<open>Components\<close>

text \<open>
  C10. For every input word, the prefix (empty if none), the base and the suffix (empty if
  none) returned by \<open>extract_components\<close> concatenate to the uppercased input word, and the
  base is non-empty whenever the input word is non-empty.
\<close>

theorem C10_components_concat:
  "opt_str (c_prefix (extract_components word)) @ c_base (extract_components word)
     @ opt_str (c_suffix (extract_components word)) = upper word
   \<and> (word \<noteq> [] \<longrightarrow> c_base (extract_components word) \<noteq> [])"
  using extract_components_split [of word] by simp

theorem C10_components_concat_witness:
  "''government'' \<noteq> []
   \<and> opt_str (c_prefix (extract_components ''government''))
       @ c_base (extract_components ''government'')
       @ opt_str (c_suffix (extract_components ''government'')) = upper ''government''
   \<and> c_base (extract_components ''government'') \<noteq> []"
  using C10_components_concat [of "''government''"] by simp

section \<open>Master numbers\<close>

lemma master_render:
  assumes "has_key MASTER_NUMBERS n"
  shows "\<exists>label. getitem MASTER_NUMBERS n = Inr label
           \<and> \<not> contains (str_nat n @ '' ('' @ label @ '')'') arrow"
proof -
  from assms have "n = 11 \<or> n = 22 \<or> n = 33 \<or> n = 44 \<or> n = 55 \<or> n = 66 \<or> n = 77 \<or> n = 88
                     \<or> n = 99"
    by (simp add: has_key_def MASTER_NUMBERS_def)
  then show ?thesis
    by (elim disjE)
       (simp_all add: getitem_def MASTER_NUMBERS_def str_nat.simps digits_def arrow_def
          middot_def startswith_def)
qed

text \<open>
  C6. For every input whose raw per-letter value sum is one of the master numbers 11, 22,
  ..., 99, the reduction loop returns the sum unchanged, and the resonance string is the sum
  followed by its master-number label in parentheses; it contains no arrow.
\<close>

theorem C6_master_preserved:
  assumes "has_key MASTER_NUMBERS (sum_list (map letter_value (filter isalpha (upper word))))"
  shows "reduce (sum_list (map letter_value (filter isalpha (upper word))))
           = Inr (sum_list (map letter_value (filter isalpha (upper word))))
         \<and> (\<exists>label.
              getitem MASTER_NUMBERS (sum_list (map letter_value (filter isalpha (upper word))))
                = Inr label
              \<and> calculate_resonance word
                = Inr (str_nat (sum_list (map letter_value (filter isalpha (upper word))))
                       @ '' ('' @ label @ '')'')
              \<and> (\<forall>r. calculate_resonance word = Inr r \<longrightarrow> \<not> contains r arrow))"
proof -
  define total where "total = sum_list (map letter_value (filter isalpha (upper word)))"
  from assms have hk: "has_key MASTER_NUMBERS total" by (simp add: total_def)
  then have red: "reduce total = Inr total" by (simp add: reduce_stops)
  from master_render [OF hk] obtain label
    where l: "getitem MASTER_NUMBERS total = Inr label"
             "\<not> contains (str_nat total @ '' ('' @ label @ '')'') arrow" by blast
  have "calculate_resonance word = Inr (str_nat total @ '' ('' @ label @ '')'')"
    using hk red l(1) by (simp add: calculate_resonance_def Let_def total_def [symmetric])
  with red l show ?thesis unfolding total_def [symmetric] by auto
qed

theorem C6_master_preserved_witness:
  "has_key MASTER_NUMBERS (sum_list (map letter_value (filter isalpha (upper ''k''))))
   \<and> calculate_resonance ''k'' = Inr (''11 (Gateway'' @ middot @ ''Luminator)'')
   \<and> \<not> contains (''11 (Gateway'' @ middot @ ''Luminator)'') arrow"
proof -
  have h: "has_key MASTER_NUMBERS (sum_list (map letter_value (filter isalpha (upper ''k''))))"
    by code_simp
  have v: "calculate_resonance ''k'' = Inr (''11 (Gateway'' @ middot @ ''Luminator)'')"
    by code_simp
  from C6_master_preserved [OF h] v show ?thesis using h by auto
qed

section \<open>Semantic and structural shadow together\<close>

lemma lower_char_outside: "c \<notin> set ascii_uppercase \<Longrightarrow> lower_char c = c"
proof -
  assume "c \<notin> set ascii_uppercase"
  then have "c \<notin> fst ` set (zip ascii_uppercase ascii_lowercase)"
    by (simp add: ascii_uppercase_def ascii_lowercase_def)
  then have "map_of (zip ascii_uppercase ascii_lowercase) c = None"
    by (simp add: map_of_eq_None_iff)
  then show ?thesis by (simp add: lower_char_def)
qed

lemma upper_lower_char: "upper_char (lower_char c) = upper_char c"
proof (cases "c \<in> set ascii_uppercase")
  case True
  then have "c = CHR ''A'' \<or> c = CHR ''B'' \<or> c = CHR ''C'' \<or> c = CHR ''D'' \<or> c = CHR ''E''
    \<or> c = CHR ''F'' \<or> c = CHR ''G'' \<or> c = CHR ''H'' \<or> c = CHR ''I'' \<or> c = CHR ''J''
    \<or> c = CHR ''K'' \<or> c = CHR ''L'' \<or> c = CHR ''M'' \<or> c = CHR ''N'' \<or> c = CHR ''O''
    \<or> c = CHR ''P'' \<or> c = CHR ''Q'' \<or> c = CHR ''R'' \<or> c = CHR ''S'' \<or> c = CHR ''T''
    \<or> c = CHR ''U'' \<or> c = CHR ''V'' \<or> c = CHR ''W'' \<or> c = CHR ''X'' \<or> c = CHR ''Y''
    \<or> c = CHR ''Z''"
    by (simp add: ascii_uppercase_def)
  then show ?thesis
    by (elim disjE)
       (simp_all add: upper_char_def lower_char_def ascii_uppercase_def ascii_lowercase_def)
next
  case False
  then show ?thesis by (simp add: lower_char_outside)
qed

lemma upper_lower: "upper (lower s) = upper s"
  by (simp add: upper_def lower_def upper_lower_char)

lemma is_greek_lower: "is_greek_compound (lower s) = is_greek_compound s"
  by (simp add: is_greek_compound_def upper_lower)

lemma semantic_words_not_greek:
  assumes "has_key SEMANTIC_SHADOWS (lower s)"
  shows "\<not> is_greek_compound s"
proof -
  from assms have "lower s = ''government'' \<or> lower s = ''information''
                   \<or> lower s = ''representative''"
    by (simp add: has_key_def SEMANTIC_SHADOWS_def)
  moreover have "\<not> is_greek_compound ''government''" by code_simp
  moreover have "\<not> is_greek_compound ''information''" by code_simp
  moreover have "\<not> is_greek_compound ''representative''" by code_simp
  ultimately have "\<not> is_greek_compound (lower s)" by auto
  then show ?thesis by (simp add: is_greek_lower)
qed

text \<open>
  C8. For every word for which both the semantic-shadow table lookup (with semantic
  flagging on) and the structural V+CC detector fire, the returned analysis has tier 1, and
  its \<open>shadow_types\<close> list holds the semantic and then the structural tag.
\<close>

theorem C8_tier_precedence:
  assumes "flag_semantic self"
    and "has_key SEMANTIC_SHADOWS (lower (clean_word (strip word)))"
    and "detect_vcc (clean_word (strip word)) = Inr (True, p, sep)"
  shows "\<exists>a. parse_word self word = Inr a \<and> tier a = Some 1 \<and> is_shadow a
             \<and> shadow_types a = [SHADOW_SEMANTIC, SHADOW_STRUCTURAL]"
proof -
  define wc where "wc = clean_word (strip word)"
  have ng: "\<not> is_greek_compound (clean_word (strip word))"
    by (rule semantic_words_not_greek [OF assms(2)])
  from semantic_check_cases [of self wc] assms(1,2) obtain expl
    where sem: "semantic_check self wc
                = Inr (True, [SHADOW_SEMANTIC], [''Semantic control: '' @ expl], Some 1)"
    by (auto simp add: wc_def)
  from detect_vcc_cases [of wc] assms(3) obtain q s
    where det: "detect_vcc wc = Inr (True, Some q, Some s)" and q: "q \<in> set (keys VCC_PREFIXES)"
    by (auto simp add: wc_def)
  from parse_word_nongreek [OF ng, of self] obtain sh types warns tr d sh' types' warns' alts
    tr' pol rendered res
    where 1: "semantic_check self wc = Inr (sh, types, warns, tr)"
      and 2: "detect_vcc wc = Inr d"
      and 3: "vcc_check (upper wc) (sh, types, warns, tr) d
              = Inr (sh', types', warns', alts, tr', pol)"
      and 4: "parse_word self word =
        Inr \<lparr>original = strip word, parsed = rendered, polarity = pol, resonance = res,
             is_shadow = sh', shadow_types = types',
             components = component_details (extract_components wc),
             warnings = warns', alternatives = alts, tier = tr',
             field_context = find_field TECHNICAL_FIELDS (lower wc),
             educational_note = None\<rparr>"
    unfolding wc_def [symmetric] by blast
  from 1 sem have e1: "sh = True" "types = [SHADOW_SEMANTIC]" "tr = Some 1" by simp_all
  from 2 det have e2: "d = (True, Some q, Some s)" by simp
  from 3 have "sh' = True \<and> types' = [SHADOW_SEMANTIC, SHADOW_STRUCTURAL] \<and> tr' = Some 1"
    unfolding e1 e2 vcc_check_fired [OF q] by (auto simp add: tier_or_def split: if_splits)
  with 4 show ?thesis by simp
qed

theorem C8_tier_precedence_witness:
  "flag_semantic default_parser
   \<and> has_key SEMANTIC_SHADOWS (lower (clean_word (strip ''information'')))
   \<and> detect_vcc (clean_word (strip ''information'')) = Inr (True, Some ''IN'', Some ''tilde'')
   \<and> (\<exists>a. parse_word default_parser ''information'' = Inr a \<and> tier a = Some 1 \<and> is_shadow a
          \<and> shadow_types a = [SHADOW_SEMANTIC, SHADOW_STRUCTURAL])"
proof -
  have f: "flag_semantic default_parser" by (simp add: default_parser_def)
  have h: "has_key SEMANTIC_SHADOWS (lower (clean_word (strip ''information'')))"
    by code_simp
  have d: "detect_vcc (clean_word (strip ''information''))
           = Inr (True, Some ''IN'', Some ''tilde'')"
    by code_simp
  from C8_tier_precedence [OF f h d] f h d show ?thesis by simp
qed

section \<open>Document statistics\<close>





end
